theory Spec2Isabelle
  imports Main "HOL-Library.AList" "HOL-Library.Multiset"
begin

section \<open>Constants of game.py\<close>

definition GRID_RADIUS :: int where "GRID_RADIUS = 4"
definition BASE_AP_PER_TURN :: int where "BASE_AP_PER_TURN = 4"
definition RESOURCE_BONUS_AP :: int where "RESOURCE_BONUS_AP = 1"
definition WIN_CONDITION_RESOURCES :: int where "WIN_CONDITION_RESOURCES = 3"
definition COST_PLACE_CONDUIT :: int where "COST_PLACE_CONDUIT = 1"
definition COST_REINFORCE_CONDUIT :: int where "COST_REINFORCE_CONDUIT = 2"
definition COST_SABOTAGE_CONDUIT :: int where "COST_SABOTAGE_CONDUIT = 3"

section \<open>Data model\<close>

text \<open>
  \<open>HexCoord = Tuple[int, int]\<close> and \<open>Edge = Tuple[HexCoord, HexCoord]\<close>.
  Python integers are unbounded, hence \<open>int\<close>.
\<close>

type_synonym HexCoord = "int \<times> int"
type_synonym Edge = "HexCoord \<times> HexCoord"

text \<open>
  Class \<open>Hex\<close>. The fields \<open>q\<close> and \<open>r\<close> carry a suffix so that the letters stay free
  for variables; the attribute \<open>s\<close> is always \<open>-q - r\<close> and is a function here.
\<close>

record Hex =
  q_hex :: int
  r_hex :: int
  resource :: "string option"
  is_base_for :: "string option"

definition s_hex :: "Hex \<Rightarrow> int" where
  "s_hex h = - q_hex h - r_hex h"

definition coordinates :: "Hex \<Rightarrow> HexCoord" where
  "coordinates h = (q_hex h, r_hex h)"

definition new_Hex :: "int \<Rightarrow> int \<Rightarrow> Hex" where
  "new_Hex qq rr = \<lparr>q_hex = qq, r_hex = rr, resource = None, is_base_for = None\<rparr>"

text \<open>
  Class \<open>Player\<close>, as it is once \<open>Board.__init__\<close> has run: \<open>base_hex\<close> is \<open>None\<close>
  only between \<open>Player.__init__\<close> and \<open>_place_special_hexes\<close>, which assigns it to every
  player before any method of \<open>Game\<close> reads it. \<open>id\<close> carries a suffix, the name being
  taken by the identity function.
\<close>

record Player =
  id_player :: string
  name :: string
  color :: string
  action_points :: int
  base_hex :: HexCoord

text \<open>The value of \<open>board.conduits[edge]\<close>: \<open>{"player_id": str, "reinforced": bool}\<close>.\<close>

record Conduit =
  player_id :: string
  reinforced :: bool

text \<open>
  Class \<open>Board\<close>. Both dictionaries are association lists in insertion order, which is the
  order a Python \<open>dict\<close> iterates in; \<open>map_of\<close> is the lookup, \<open>AList.update\<close> is
  \<open>d[k] = v\<close> (in place for a key that is present, appended otherwise) and
  \<open>AList.delete\<close> is \<open>del d[k]\<close>.
\<close>

record Board =
  radius :: int
  hexes :: "(HexCoord \<times> Hex) list"
  conduits :: "(Edge \<times> Conduit) list"

text \<open>
  Class \<open>Game\<close>. \<open>winner\<close> is a reference to one of the objects of \<open>players\<close>; it is
  represented by the position of that object in the list, which never changes after
  creation.
\<close>

record Game =
  players :: "Player list"
  board :: Board
  turn_number :: int
  current_player_idx :: nat
  game_over :: bool
  winner :: "nat option"
  message :: string

section \<open>Exceptions\<close>

datatype error = KeyError | TypeError | ValueError | IndexError | ZeroDivisionError

definition bind_err :: "error + 'a \<Rightarrow> ('a \<Rightarrow> error + 'b) \<Rightarrow> error + 'b" where
  "bind_err m f = (case m of Inl e \<Rightarrow> Inl e | Inr x \<Rightarrow> f x)"

section \<open>The hex grid\<close>

text \<open>
  \<open>Board._generate_grid\<close>: the two nested \<open>range\<close> loops, keeping \<open>(q, r)\<close> when
  \<open>-q - r\<close> lies in the same range. Every key is written once, so the dictionary is the
  list of the pairs in loop order.
\<close>

definition generate_grid :: "int \<Rightarrow> (HexCoord \<times> Hex) list" where
  "generate_grid rad =
     concat (map (\<lambda>qq. map (\<lambda>rr. ((qq, rr), new_Hex qq rr))
                          (filter (\<lambda>rr. - rad \<le> - qq - rr \<and> - qq - rr < rad + 1) [- rad..rad]))
                 [- rad..rad])"

definition directions :: "(int \<times> int) list" where
  "directions = [(1, 0), (0, 1), (-1, 1), (-1, 0), (0, -1), (1, -1)]"

text \<open>\<open>Board.get_neighbors\<close>, for a coordinate pair of integers.\<close>

definition get_neighbors :: "(HexCoord \<times> Hex) list \<Rightarrow> HexCoord \<Rightarrow> HexCoord list" where
  "get_neighbors hx hex_coord =
     (case hex_coord of (qq, rr) \<Rightarrow>
        filter (\<lambda>neighbor_coord. map_of hx neighbor_coord \<noteq> None)
               (map (\<lambda>(dq, dr). (qq + dq, rr + dr)) directions))"

section \<open>Network reachability\<close>

text \<open>
  \<open>tuple(sorted((a, b)))\<close> on two coordinate pairs: the list sort compares the second
  element with the first once and swaps them when it is smaller; tuples of integers
  compare lexicographically.
\<close>

definition coord_lt :: "HexCoord \<Rightarrow> HexCoord \<Rightarrow> bool" where
  "coord_lt a b = (fst a < fst b \<or> (fst a = fst b \<and> snd a < snd b))"

definition sorted_edge :: "HexCoord \<Rightarrow> HexCoord \<Rightarrow> Edge" where
  "sorted_edge a b = (if coord_lt b a then (b, a) else (a, b))"

text \<open>
  The set comprehension that opens \<open>_get_player_network\<close> and \<open>_is_connected\<close>:
  the edges whose conduit belongs to the player.
\<close>

definition player_conduits :: "(Edge \<times> Conduit) list \<Rightarrow> string \<Rightarrow> Edge set" where
  "player_conduits cs pid = set (map fst (filter (\<lambda>(edge, data). player_id data = pid) cs))"

text \<open>The body of the inner \<open>for neighbor in ...\<close> loop of \<open>_is_connected\<close>.\<close>

definition visit_neighbor ::
  "Edge set \<Rightarrow> HexCoord \<Rightarrow> HexCoord \<Rightarrow> HexCoord list \<times> HexCoord set \<Rightarrow> HexCoord list \<times> HexCoord set"
where
  "visit_neighbor pc current_hex neighbor st =
     (case st of (queue, visited) \<Rightarrow>
        if sorted_edge current_hex neighbor \<in> pc \<and> neighbor \<notin> visited
        then (queue @ [neighbor], insert neighbor visited)
        else (queue, visited))"

definition visit_all ::
  "(HexCoord \<times> Hex) list \<Rightarrow> Edge set \<Rightarrow> HexCoord \<Rightarrow> HexCoord list \<times> HexCoord set \<Rightarrow> HexCoord list \<times> HexCoord set"
where
  "visit_all hx pc current_hex st = fold (visit_neighbor pc current_hex) (get_neighbors hx current_hex) st"

lemma visit_neighbor_fold:
  "fold (visit_neighbor pc cur) ns (queue, visited) = (queue', visited') \<Longrightarrow>
     visited' = visited \<union> {n \<in> set ns. sorted_edge cur n \<in> pc} \<and>
     set queue' = set queue \<union> ({n \<in> set ns. sorted_edge cur n \<in> pc} - visited) \<and>
     length queue' = length queue + card (visited' - visited)"
proof (induction ns arbitrary: queue visited)
  case Nil
  then show ?case by simp
next
  case (Cons n ns)
  show ?case
  proof (cases "sorted_edge cur n \<in> pc \<and> n \<notin> visited")
    case True
    then have "visit_neighbor pc cur n (queue, visited) = (queue @ [n], insert n visited)"
      by (simp add: visit_neighbor_def)
    with Cons.prems have f: "fold (visit_neighbor pc cur) ns (queue @ [n], insert n visited) = (queue', visited')"
      by simp
    from Cons.IH[OF f] have v: "visited' = insert n visited \<union> {n \<in> set ns. sorted_edge cur n \<in> pc}"
      and s: "set queue' = set (queue @ [n]) \<union> ({n \<in> set ns. sorted_edge cur n \<in> pc} - insert n visited)"
      and l: "length queue' = length (queue @ [n]) + card (visited' - insert n visited)"
      by blast+
    have fin: "finite (visited' - visited)"
      unfolding v by (rule finite_subset[of _ "insert n (set ns)"]) auto
    have "visited' - visited = insert n (visited' - insert n visited)"
      using True v by auto
    moreover have "n \<notin> visited' - insert n visited" by simp
    ultimately have "card (visited' - visited) = Suc (card (visited' - insert n visited))"
      using fin by (metis card_insert_disjoint finite_insert)
    with v s l True show ?thesis by auto
  next
    case False
    then have "visit_neighbor pc cur n (queue, visited) = (queue, visited)"
      by (simp add: visit_neighbor_def)
    with Cons.prems have f: "fold (visit_neighbor pc cur) ns (queue, visited) = (queue', visited')"
      by simp
    from Cons.IH[OF f] False show ?thesis by auto
  qed
qed

lemma get_neighbors_on_grid: "set (get_neighbors hx c) \<subseteq> fst ` set hx"
  by (force simp: get_neighbors_def dest: map_of_SomeD split: prod.splits)

text \<open>
  The \<open>while q:\<close> loop of \<open>_is_connected\<close>, on the deque and the visited set. Each round
  removes the head of the queue and appends only unvisited cells of the grid.
\<close>

function bfs ::
  "(HexCoord \<times> Hex) list \<Rightarrow> Edge set \<Rightarrow> HexCoord \<Rightarrow> HexCoord list \<Rightarrow> HexCoord set \<Rightarrow> bool"
where
  "bfs hx pc end_node [] visited = False"
| "bfs hx pc end_node (current_hex # queue) visited =
     (if current_hex = end_node then True
      else bfs hx pc end_node (fst (visit_all hx pc current_hex (queue, visited)))
                              (snd (visit_all hx pc current_hex (queue, visited))))"
  by pat_completeness auto

termination
proof (relation "measure (\<lambda>(hx, pc, e, queue, visited). 2 * card (fst ` set hx - visited) + length queue)")
  show "wf (measure (\<lambda>(hx, pc, e, queue, visited). 2 * card (fst ` set hx - visited) + length queue))"
    by simp
next
  fix hx :: "(HexCoord \<times> Hex) list" and pc :: "Edge set" and end_node current_hex :: HexCoord
    and queue :: "HexCoord list" and visited :: "HexCoord set"
  obtain queue' visited' where f: "visit_all hx pc current_hex (queue, visited) = (queue', visited')"
    by (cases "visit_all hx pc current_hex (queue, visited)")
  let ?new = "{n \<in> set (get_neighbors hx current_hex). sorted_edge current_hex n \<in> pc}"
  from f have v: "visited' = visited \<union> ?new"
    and l: "length queue' = length queue + card (visited' - visited)"
    using visit_neighbor_fold[of pc current_hex "get_neighbors hx current_hex" queue visited queue' visited']
    by (simp_all add: visit_all_def)
  let ?H = "fst ` set hx"
  have sub: "visited' - visited \<subseteq> ?H - visited"
    using v get_neighbors_on_grid[of hx current_hex] by auto
  have disj: "?H - visited = (?H - visited') \<union> (visited' - visited)"
    using sub v by auto
  have "card (?H - visited) = card (?H - visited') + card (visited' - visited)"
    by (subst disj, rule card_Un_disjoint) (auto intro: finite_subset[OF sub])
  with l have "2 * card (?H - visited') + length queue' < 2 * card (?H - visited) + length (current_hex # queue)"
    by simp
  with f show "((hx, pc, end_node, fst (visit_all hx pc current_hex (queue, visited)),
                 snd (visit_all hx pc current_hex (queue, visited))),
                (hx, pc, end_node, current_hex # queue, visited))
               \<in> measure (\<lambda>(hx, pc, e, queue, visited). 2 * card (fst ` set hx - visited) + length queue)"
    by simp
qed

text \<open>\<open>Game._is_connected\<close>, on the board's two dictionaries and the player's id.\<close>

definition is_connected ::
  "Board \<Rightarrow> Player \<Rightarrow> HexCoord \<Rightarrow> HexCoord \<Rightarrow> bool"
where
  "is_connected b player start_node end_node =
     (if player_conduits (conduits b) (id_player player) = {} then False
      else bfs (hexes b) (player_conduits (conduits b) (id_player player)) end_node [start_node] {start_node})"

section \<open>What the search computes\<close>

text \<open>
  One step along a conduit of the set \<open>pc\<close>, as the loop of \<open>_is_connected\<close> takes it: from
  a cell to a neighbour that is on the grid, when the sorted pair of the two is in \<open>pc\<close>.
\<close>

definition conduit_steps :: "(HexCoord \<times> Hex) list \<Rightarrow> Edge set \<Rightarrow> (HexCoord \<times> HexCoord) set" where
  "conduit_steps hx pc = {(a, b). b \<in> set (get_neighbors hx a) \<and> sorted_edge a b \<in> pc}"

lemma visit_all_spec:
  "snd (visit_all hx pc cur (queue, visited)) = visited \<union> conduit_steps hx pc `` {cur}"
  "set (fst (visit_all hx pc cur (queue, visited))) = set queue \<union> (conduit_steps hx pc `` {cur} - visited)"
proof -
  obtain queue' visited' where f: "fold (visit_neighbor pc cur) (get_neighbors hx cur) (queue, visited) = (queue', visited')"
    by (cases "fold (visit_neighbor pc cur) (get_neighbors hx cur) (queue, visited)")
  have n: "conduit_steps hx pc `` {cur} = {n \<in> set (get_neighbors hx cur). sorted_edge cur n \<in> pc}"
    by (auto simp: conduit_steps_def)
  from visit_neighbor_fold[OF f] f
  show "snd (visit_all hx pc cur (queue, visited)) = visited \<union> conduit_steps hx pc `` {cur}"
    and "set (fst (visit_all hx pc cur (queue, visited))) = set queue \<union> (conduit_steps hx pc `` {cur} - visited)"
    by (simp_all add: visit_all_def n)
qed

lemma closed_reach:
  assumes "\<forall>v\<in>V. R `` {v} \<subseteq> V"
  shows "R\<^sup>* `` V = V"
proof -
  from assms have "R `` V \<subseteq> V" by blast
  then show ?thesis by (rule Image_closed_trancl)
qed

lemma bfs_correct:
  assumes "set queue \<subseteq> visited"
    and "\<forall>v\<in>visited - set queue. v \<noteq> e \<and> conduit_steps hx pc `` {v} \<subseteq> visited"
  shows "bfs hx pc e queue visited \<longleftrightarrow> e \<in> (conduit_steps hx pc)\<^sup>* `` visited"
  using assms
proof (induction hx pc e queue visited rule: bfs.induct)
  case (1 hx pc e visited)
  let ?R = "conduit_steps hx pc"
  from "1.prems" have "\<forall>v\<in>visited. ?R `` {v} \<subseteq> visited" by simp
  then have "?R\<^sup>* `` visited = visited" by (rule closed_reach)
  moreover from "1.prems" have "e \<notin> visited" by auto
  ultimately show ?case by simp
next
  case (2 hx pc e cur queue visited)
  let ?R = "conduit_steps hx pc"
  let ?N = "?R `` {cur}"
  let ?q = "fst (visit_all hx pc cur (queue, visited))"
  let ?v = "snd (visit_all hx pc cur (queue, visited))"
  from "2.prems"(1) have cur: "cur \<in> visited" by simp
  show ?case
  proof (cases "cur = e")
    case True
    with cur have "e \<in> ?R\<^sup>* `` visited" by blast
    with True show ?thesis by simp
  next
    case False
    have v: "?v = visited \<union> ?N" and q: "set ?q = set queue \<union> (?N - visited)"
      by (rule visit_all_spec)+
    have p1: "set ?q \<subseteq> ?v" using "2.prems"(1) unfolding v q by auto
    have p2: "\<forall>w\<in>?v - set ?q. w \<noteq> e \<and> ?R `` {w} \<subseteq> ?v"
    proof
      fix w assume w: "w \<in> ?v - set ?q"
      then have wv: "w \<in> visited" and wq: "w \<notin> set queue" unfolding v q by auto
      show "w \<noteq> e \<and> ?R `` {w} \<subseteq> ?v"
      proof (cases "w = cur")
        case True
        with False show ?thesis unfolding v by auto
      next
        case wc: False
        with wv wq have "w \<in> visited - set (cur # queue)" by simp
        with "2.prems"(2) have "w \<noteq> e \<and> ?R `` {w} \<subseteq> visited" by blast
        then show ?thesis unfolding v by auto
      qed
    qed
    from "2.IH"[OF False p1 p2] have ih: "bfs hx pc e ?q ?v \<longleftrightarrow> e \<in> ?R\<^sup>* `` ?v" .
    have "?R\<^sup>* `` ?v = ?R\<^sup>* `` visited"
    proof
      show "?R\<^sup>* `` visited \<subseteq> ?R\<^sup>* `` ?v" unfolding v by blast
      show "?R\<^sup>* `` ?v \<subseteq> ?R\<^sup>* `` visited"
      proof
        fix y assume "y \<in> ?R\<^sup>* `` ?v"
        then obtain x where x: "x \<in> ?v" and xy: "(x, y) \<in> ?R\<^sup>*" by blast
        from x have "x \<in> visited \<or> (cur, x) \<in> ?R" unfolding v by auto
        then show "y \<in> ?R\<^sup>* `` visited"
        proof
          assume "x \<in> visited" with xy show ?thesis by blast
        next
          assume "(cur, x) \<in> ?R"
          then have "(cur, y) \<in> ?R\<^sup>*" using xy by (rule converse_rtrancl_into_rtrancl)
          with cur show ?thesis by blast
        qed
      qed
    qed
    with ih False show ?thesis by simp
  qed
qed

lemma is_connected_iff:
  "is_connected b p x y \<longleftrightarrow>
     player_conduits (conduits b) (id_player p) \<noteq> {} \<and>
     (x, y) \<in> (conduit_steps (hexes b) (player_conduits (conduits b) (id_player p)))\<^sup>*"
proof -
  have "bfs hx pc y [x] {x} \<longleftrightarrow> y \<in> (conduit_steps hx pc)\<^sup>* `` {x}" for hx pc
    by (rule bfs_correct) simp_all
  then show ?thesis by (simp add: is_connected_def)
qed

lemma conduit_steps_mono: "pc \<subseteq> pc' \<Longrightarrow> conduit_steps hx pc \<subseteq> conduit_steps hx pc'"
  by (auto simp: conduit_steps_def)

lemma player_conduits_update:
  "player_id c = pid \<Longrightarrow> player_conduits (AList.update e c cs) pid = insert e (player_conduits cs pid)"
proof (induction cs)
  case Nil
  then show ?case by (simp add: player_conduits_def)
next
  case (Cons x cs)
  obtain k v where x: "x = (k, v)" by (cases x)
  have step: "player_conduits ((k', v') # ys) pid =
        (if player_id v' = pid then insert k' (player_conduits ys pid) else player_conduits ys pid)" for k' v' ys
    by (simp add: player_conduits_def)
  show ?case
  proof (cases "k = e")
    case True
    with Cons.prems x show ?thesis by (auto simp: step)
  next
    case False
    with Cons.prems Cons.IH x show ?thesis by (auto simp: step)
  qed
qed

lemma player_conduits_delete:
  "player_conduits (AList.delete e cs) pid = player_conduits cs pid - {e}"
  by (induction cs) (auto simp: player_conduits_def)

section \<open>Action payloads\<close>

text \<open>
  An action is a \<open>Dict[str, Any]\<close> decoded from JSON. Its values are the JSON values:
  null, booleans, integers, strings, arrays (Python lists) and objects (Python
  dictionaries with string keys, given by their items in iteration order, each key
  once). Numbers with a fraction are the one kind of JSON value left out: what the code
  does with them is floating-point arithmetic.
\<close>

datatype pyval = PNone | PBool bool | PInt int | PStr string | PList "pyval list"
  | PDict "(string \<times> pyval) list"

type_synonym action = "(string \<times> pyval) list"

text \<open>\<open>action[key]\<close> raises \<open>KeyError\<close> on a missing key; \<open>action.get(key)\<close> gives \<open>None\<close>.\<close>

definition action_item :: "action \<Rightarrow> string \<Rightarrow> error + pyval" where
  "action_item a k = (case map_of a k of None \<Rightarrow> Inl KeyError | Some v \<Rightarrow> Inr v)"

definition action_get :: "action \<Rightarrow> string \<Rightarrow> pyval" where
  "action_get a k = (case map_of a k of None \<Rightarrow> PNone | Some v \<Rightarrow> v)"

text \<open>
  \<open>tuple(x)\<close>: the elements of a list, the characters of a string, the keys of a
  dictionary, \<open>TypeError\<close> for a value that is not iterable.
\<close>

fun py_tuple :: "pyval \<Rightarrow> error + pyval list" where
  "py_tuple (PList xs) = Inr xs"
| "py_tuple (PStr s) = Inr (map (\<lambda>c. PStr [c]) s)"
| "py_tuple (PDict kvs) = Inr (map (\<lambda>kv. PStr (fst kv)) kvs)"
| "py_tuple PNone = Inl TypeError"
| "py_tuple (PBool b) = Inl TypeError"
| "py_tuple (PInt i) = Inl TypeError"

text \<open>A \<open>bool\<close> is an \<open>int\<close> in Python: \<open>True == 1\<close>, \<open>True + 1 == 2\<close>.\<close>

fun as_int :: "pyval \<Rightarrow> int option" where
  "as_int (PInt i) = Some i"
| "as_int (PBool b) = Some (if b then 1 else 0)"
| "as_int PNone = None"
| "as_int (PStr s) = None"
| "as_int (PList xs) = None"
| "as_int (PDict kvs) = None"

text \<open>
  Python's \<open>==\<close> on these values; it never raises. Two dictionaries are equal when they
  have as many items and every key of the first has an equal value in the second.
\<close>

function py_eq :: "pyval \<Rightarrow> pyval \<Rightarrow> bool"
  and py_eq_list :: "pyval list \<Rightarrow> pyval list \<Rightarrow> bool"
  and py_eq_items :: "(string \<times> pyval) list \<Rightarrow> (string \<times> pyval) list \<Rightarrow> bool"
where
  "py_eq PNone y = (y = PNone)"
| "py_eq (PBool b) y = (as_int y = Some (if b then 1 else 0))"
| "py_eq (PInt i) y = (as_int y = Some i)"
| "py_eq (PStr s) y = (y = PStr s)"
| "py_eq (PList xs) PNone = False"
| "py_eq (PList xs) (PBool c) = False"
| "py_eq (PList xs) (PInt j) = False"
| "py_eq (PList xs) (PStr t) = False"
| "py_eq (PList xs) (PList ys) = py_eq_list xs ys"
| "py_eq (PList xs) (PDict ws) = False"
| "py_eq (PDict kvs) PNone = False"
| "py_eq (PDict kvs) (PBool c) = False"
| "py_eq (PDict kvs) (PInt j) = False"
| "py_eq (PDict kvs) (PStr t) = False"
| "py_eq (PDict kvs) (PList ys) = False"
| "py_eq (PDict kvs) (PDict ws) = (length kvs = length ws \<and> py_eq_items kvs ws)"
| "py_eq_list [] [] = True"
| "py_eq_list [] (y # ys) = False"
| "py_eq_list (x # xs) [] = False"
| "py_eq_list (x # xs) (y # ys) = (py_eq x y \<and> py_eq_list xs ys)"
| "py_eq_items [] ws = True"
| "py_eq_items ((k, v) # kvs) ws =
     ((case map_of ws k of None \<Rightarrow> False | Some w \<Rightarrow> py_eq v w) \<and> py_eq_items kvs ws)"
  by pat_completeness auto

termination
  by (relation "measure (\<lambda>s. case s of Inl (a, b) \<Rightarrow> size a
          | Inr (Inl (xs, ys)) \<Rightarrow> size_list size xs
          | Inr (Inr (kvs, ws)) \<Rightarrow> size_list (size_prod (\<lambda>k. 0) size) kvs)") auto

text \<open>Strings compare lexicographically by character code.\<close>

fun str_lt :: "string \<Rightarrow> string \<Rightarrow> bool" where
  "str_lt [] [] = False"
| "str_lt [] (y # ys) = True"
| "str_lt (x # xs) [] = False"
| "str_lt (x # xs) (y # ys) = (if x = y then str_lt xs ys else (of_char x :: nat) < of_char y)"

text \<open>
  Python's \<open><\<close>: numbers with numbers, strings with strings, lists with lists
  (the first position where the elements are not \<open>==\<close> decides, then the lengths);
  every other pairing, and every pairing with \<open>None\<close> or a dictionary, raises
  \<open>TypeError\<close>. \<open>tuple_lt\<close> is the same comparison on two tuples.
\<close>

function py_lt :: "pyval \<Rightarrow> pyval \<Rightarrow> error + bool" and tuple_lt :: "pyval list \<Rightarrow> pyval list \<Rightarrow> error + bool" where
  "py_lt (PInt i) (PInt j) = Inr (i < j)"
| "py_lt (PInt i) (PBool c) = Inr (i < (if c then 1 else 0))"
| "py_lt (PBool b) (PInt j) = Inr ((if b then 1 else 0) < j)"
| "py_lt (PBool b) (PBool c) = Inr ((if b then (1::int) else 0) < (if c then 1 else 0))"
| "py_lt (PStr s) (PStr t) = Inr (str_lt s t)"
| "py_lt (PList xs) (PList ys) = tuple_lt xs ys"
| "py_lt PNone y = Inl TypeError"
| "py_lt (PDict kvs) y = Inl TypeError"
| "py_lt (PBool b) PNone = Inl TypeError"
| "py_lt (PBool b) (PStr t) = Inl TypeError"
| "py_lt (PBool b) (PList ys) = Inl TypeError"
| "py_lt (PBool b) (PDict ws) = Inl TypeError"
| "py_lt (PInt i) PNone = Inl TypeError"
| "py_lt (PInt i) (PStr t) = Inl TypeError"
| "py_lt (PInt i) (PList ys) = Inl TypeError"
| "py_lt (PInt i) (PDict ws) = Inl TypeError"
| "py_lt (PStr s) PNone = Inl TypeError"
| "py_lt (PStr s) (PBool c) = Inl TypeError"
| "py_lt (PStr s) (PInt j) = Inl TypeError"
| "py_lt (PStr s) (PList ys) = Inl TypeError"
| "py_lt (PStr s) (PDict ws) = Inl TypeError"
| "py_lt (PList xs) PNone = Inl TypeError"
| "py_lt (PList xs) (PBool c) = Inl TypeError"
| "py_lt (PList xs) (PInt j) = Inl TypeError"
| "py_lt (PList xs) (PStr t) = Inl TypeError"
| "py_lt (PList xs) (PDict ws) = Inl TypeError"
| "tuple_lt [] [] = Inr False"
| "tuple_lt [] (y # ys) = Inr True"
| "tuple_lt (x # xs) [] = Inr False"
| "tuple_lt (x # xs) (y # ys) = (if py_eq x y then tuple_lt xs ys else py_lt x y)"
  by pat_completeness auto

termination
  by (relation "measure (\<lambda>s. case s of Inl (a, b) \<Rightarrow> size a | Inr (xs, ys) \<Rightarrow> size_list size xs)") auto

text \<open>
  \<open>sorted((hex1, hex2))\<close> makes one comparison, \<open>hex2 < hex1\<close>, and swaps the two when
  it holds. \<open>sorted_swaps\<close> is that comparison; the sorted pair follows from it.
\<close>

definition sorted_swaps :: "pyval list \<Rightarrow> pyval list \<Rightarrow> error + bool" where
  "sorted_swaps hex1 hex2 = tuple_lt hex2 hex1"

definition sorted_pair :: "bool \<Rightarrow> 'a \<Rightarrow> 'a \<Rightarrow> 'a \<times> 'a" where
  "sorted_pair swaps a b = (if swaps then (b, a) else (a, b))"

text \<open>
  A list and a dictionary cannot be hashed (\<open>TypeError\<close>), so neither they nor a tuple
  holding one can be looked up in a dictionary.
\<close>

fun py_hashable :: "pyval \<Rightarrow> bool" where
  "py_hashable (PList xs) = False"
| "py_hashable (PDict kvs) = False"
| "py_hashable PNone = True"
| "py_hashable (PBool b) = True"
| "py_hashable (PInt i) = True"
| "py_hashable (PStr s) = True"

text \<open>
  A tuple is equal to a coordinate pair when it has two elements and both are numbers.
  Equal keys hash alike, so a tuple that is used as a key of \<open>conduits\<close> is represented
  by the coordinate pair it is equal to.
\<close>

fun as_coord :: "pyval list \<Rightarrow> HexCoord option" where
  "as_coord [a, b] =
     (case as_int a of None \<Rightarrow> None
      | Some i \<Rightarrow> (case as_int b of None \<Rightarrow> None | Some j \<Rightarrow> Some (i, j)))"
| "as_coord [] = None"
| "as_coord [a] = None"
| "as_coord (a # b # c # t) = None"

text \<open>
  \<open>self.board.conduits.get(edge)\<close> and \<open>edge in self.board.conduits\<close> for an edge of two
  tuples: hashing the key raises \<open>TypeError\<close> when an element is a list or a
  dictionary; otherwise
  the key is found when it equals a key of the dictionary, which is a pair of
  coordinate pairs. The entry is returned with its key.
\<close>

definition conduits_get ::
  "(Edge \<times> Conduit) list \<Rightarrow> pyval list \<times> pyval list \<Rightarrow> error + (Edge \<times> Conduit) option"
where
  "conduits_get cs edge =
     (if \<not> (list_all py_hashable (fst edge) \<and> list_all py_hashable (snd edge)) then Inl TypeError
      else Inr (case as_coord (fst edge) of None \<Rightarrow> None
                | Some a \<Rightarrow> (case as_coord (snd edge) of None \<Rightarrow> None
                    | Some b \<Rightarrow> (case map_of cs (a, b) of None \<Rightarrow> None
                        | Some data \<Rightarrow> Some ((a, b), data)))))"

text \<open>
  \<open>Board.get_neighbors\<close> on a tuple of the payload: \<open>q, r = hex_coord\<close> raises
  \<open>ValueError\<close> unless there are two elements, and \<open>q + dq\<close>, \<open>r + dr\<close> raise
  \<open>TypeError\<close> unless both are numbers. The coordinate pair is returned with its
  neighbours.
\<close>

fun get_neighbors_of_tuple ::
  "(HexCoord \<times> Hex) list \<Rightarrow> pyval list \<Rightarrow> error + (HexCoord \<times> HexCoord list)"
where
  "get_neighbors_of_tuple hx [a, b] =
     (case as_int a of None \<Rightarrow> Inl TypeError
      | Some i \<Rightarrow> (case as_int b of None \<Rightarrow> Inl TypeError
          | Some j \<Rightarrow> Inr ((i, j), get_neighbors hx (i, j))))"
| "get_neighbors_of_tuple hx [] = Inl ValueError"
| "get_neighbors_of_tuple hx [a] = Inl ValueError"
| "get_neighbors_of_tuple hx (a # b # c # t) = Inl ValueError"

text \<open>\<open>hex2_coord in neighbors\<close>: the coordinate pair the tuple equals, when it is listed.\<close>

definition tuple_in :: "pyval list \<Rightarrow> HexCoord list \<Rightarrow> HexCoord option" where
  "tuple_in t cs = (case as_coord t of None \<Rightarrow> None
                    | Some c \<Rightarrow> if c \<in> set cs then Some c else None)"

section \<open>Turns and the economy of action points\<close>

text \<open>\<open>str(n)\<close> for the numbers that appear in status messages.\<close>

fun str_nat :: "nat \<Rightarrow> string" where
  "str_nat n = (if n < 10 then [char_of (48 + n)] else str_nat (n div 10) @ [char_of (48 + n mod 10)])"

declare str_nat.simps [simp del]

definition str_int :: "int \<Rightarrow> string" where
  "str_int i = (if i < 0 then CHR ''-'' # str_nat (nat (- i)) else str_nat (nat i))"

text \<open>\<open>Game.get_current_player\<close>: indexing past the end of the list raises \<open>IndexError\<close>.\<close>

definition get_current_player :: "Game \<Rightarrow> error + Player" where
  "get_current_player g =
     (if current_player_idx g < length (players g) then Inr (players g ! current_player_idx g)
      else Inl IndexError)"

text \<open>
  \<open>Game._get_controlled_resources\<close>. A resource is truthy when it is a non-empty string.
\<close>

definition is_resource_hex :: "Hex \<Rightarrow> bool" where
  "is_resource_hex h = (case resource h of None \<Rightarrow> False | Some res \<Rightarrow> res \<noteq> [] \<and> res \<noteq> ''NEXUS'')"

definition get_controlled_resources :: "Board \<Rightarrow> Player \<Rightarrow> HexCoord set" where
  "get_controlled_resources b player =
     set (map coordinates
            (filter (\<lambda>res_hex. is_connected b player (base_hex player) (coordinates res_hex))
                    (filter is_resource_hex (map snd (hexes b)))))"

text \<open>\<open>Game.start_turn\<close>.\<close>

definition start_turn :: "Game \<Rightarrow> error + Game" where
  "start_turn g =
     (let g1 = g\<lparr>turn_number := turn_number g + 1\<rparr> in
      bind_err (get_current_player g1) (\<lambda>player.
        let controlled_resources = get_controlled_resources (board g1) player;
            bonus_ap = int (card controlled_resources) * RESOURCE_BONUS_AP;
            player1 = player\<lparr>action_points := BASE_AP_PER_TURN + bonus_ap\<rparr>
        in Inr (g1\<lparr>players := (players g1)[current_player_idx g1 := player1],
                    message := name player1 @ [CHR 0x27] @ ''s turn. AP: '' @ str_int (action_points player1)\<rparr>)))"

text \<open>\<open>Game.next_turn\<close>: \<open>%\<close> by the length of an empty list raises \<open>ZeroDivisionError\<close>.\<close>

definition next_turn :: "Game \<Rightarrow> error + Game" where
  "next_turn g =
     (if game_over g then Inr g
      else if length (players g) = 0 then Inl ZeroDivisionError
      else start_turn (g\<lparr>current_player_idx := (current_player_idx g + 1) mod length (players g)\<rparr>))"

section \<open>The three actions\<close>

text \<open>
  A handler receives the player object; here it receives the position \<open>i\<close> of that
  object in \<open>players\<close>. \<open>spend\<close> is \<open>player.action_points -= cost\<close>.
\<close>

definition spend :: "Player list \<Rightarrow> nat \<Rightarrow> int \<Rightarrow> Player list" where
  "spend ps i cost = ps[i := (ps ! i)\<lparr>action_points := action_points (ps ! i) - cost\<rparr>]"

definition set_conduits :: "Game \<Rightarrow> (Edge \<times> Conduit) list \<Rightarrow> Game" where
  "set_conduits g cs = g\<lparr>board := (board g)\<lparr>conduits := cs\<rparr>\<rparr>"

text \<open>
  The loop over \<open>self.board.conduits\<close> in \<open>_handle_place_conduit\<close>: some conduit of the
  player has one of the two cells as an endpoint.
\<close>

definition touches_network :: "(Edge \<times> Conduit) list \<Rightarrow> string \<Rightarrow> HexCoord \<Rightarrow> HexCoord \<Rightarrow> bool" where
  "touches_network cs pid hex1_coord hex2_coord =
     list_ex (\<lambda>(existing_edge, data). player_id data = pid \<and>
                ((hex1_coord = fst existing_edge \<or> hex1_coord = snd existing_edge) \<or>
                 (hex2_coord = fst existing_edge \<or> hex2_coord = snd existing_edge))) cs"

text \<open>\<open>Game._handle_place_conduit\<close>.\<close>

definition handle_place_conduit :: "Game \<Rightarrow> nat \<Rightarrow> action \<Rightarrow> error + (bool \<times> Game)" where
  "handle_place_conduit g i a =
     (let player = players g ! i in
      if action_points player < COST_PLACE_CONDUIT
      then Inr (False, g\<lparr>message := ''Not enough AP to place a conduit.''\<rparr>)
      else
        bind_err (action_item a ''hex1'') (\<lambda>v1. bind_err (py_tuple v1) (\<lambda>hex1_coord.
        bind_err (action_item a ''hex2'') (\<lambda>v2. bind_err (py_tuple v2) (\<lambda>hex2_coord.
        bind_err (sorted_swaps hex1_coord hex2_coord) (\<lambda>swaps.
        bind_err (conduits_get (conduits (board g)) (sorted_pair swaps hex1_coord hex2_coord)) (\<lambda>found.
          if found \<noteq> None
          then Inr (False, g\<lparr>message := ''A conduit already exists there.''\<rparr>)
          else
            bind_err (get_neighbors_of_tuple (hexes (board g)) hex1_coord) (\<lambda>(c1, neighbors).
              case tuple_in hex2_coord neighbors of
                None \<Rightarrow> Inr (False, g\<lparr>message := ''Hexes are not adjacent.''\<rparr>)
              | Some c2 \<Rightarrow>
                  let edge = sorted_pair swaps c1 c2;
                      is_adjacent_to_network =
                        (if base_hex player = fst edge \<or> base_hex player = snd edge then True
                         else touches_network (conduits (board g)) (id_player player) c1 c2)
                  in if \<not> is_adjacent_to_network
                     then Inr (False, g\<lparr>message := ''Must place conduits adjacent to your existing network.''\<rparr>)
                     else Inr (True,
                            (set_conduits (g\<lparr>players := spend (players g) i COST_PLACE_CONDUIT\<rparr>)
                               (AList.update edge \<lparr>player_id = id_player player, reinforced = False\<rparr>
                                  (conduits (board g))))
                            \<lparr>message := name player @ '' placed a conduit.''\<rparr>)))))))))"

text \<open>\<open>Game._handle_reinforce_conduit\<close>.\<close>

definition handle_reinforce_conduit :: "Game \<Rightarrow> nat \<Rightarrow> action \<Rightarrow> error + (bool \<times> Game)" where
  "handle_reinforce_conduit g i a =
     (let player = players g ! i in
      if action_points player < COST_REINFORCE_CONDUIT
      then Inr (False, g\<lparr>message := ''Not enough AP to reinforce.''\<rparr>)
      else
        bind_err (action_item a ''hex1'') (\<lambda>v1. bind_err (py_tuple v1) (\<lambda>hex1_coord.
        bind_err (action_item a ''hex2'') (\<lambda>v2. bind_err (py_tuple v2) (\<lambda>hex2_coord.
        bind_err (sorted_swaps hex1_coord hex2_coord) (\<lambda>swaps.
        bind_err (conduits_get (conduits (board g)) (sorted_pair swaps hex1_coord hex2_coord)) (\<lambda>found.
          case found of
            None \<Rightarrow> Inr (False, g\<lparr>message := ''You can only reinforce your own conduits.''\<rparr>)
          | Some (edge, conduit) \<Rightarrow>
              if player_id conduit \<noteq> id_player player
              then Inr (False, g\<lparr>message := ''You can only reinforce your own conduits.''\<rparr>)
              else if reinforced conduit
              then Inr (False, g\<lparr>message := ''Conduit is already reinforced.''\<rparr>)
              else Inr (True,
                     (set_conduits (g\<lparr>players := spend (players g) i COST_REINFORCE_CONDUIT\<rparr>)
                        (AList.update edge (conduit\<lparr>reinforced := True\<rparr>) (conduits (board g))))
                     \<lparr>message := name player @ '' reinforced a conduit.''\<rparr>))))))))"

text \<open>\<open>Game._handle_sabotage_conduit\<close>.\<close>

definition handle_sabotage_conduit :: "Game \<Rightarrow> nat \<Rightarrow> action \<Rightarrow> error + (bool \<times> Game)" where
  "handle_sabotage_conduit g i a =
     (let player = players g ! i in
      if action_points player < COST_SABOTAGE_CONDUIT
      then Inr (False, g\<lparr>message := ''Not enough AP to sabotage.''\<rparr>)
      else
        bind_err (action_item a ''hex1'') (\<lambda>v1. bind_err (py_tuple v1) (\<lambda>hex1_coord.
        bind_err (action_item a ''hex2'') (\<lambda>v2. bind_err (py_tuple v2) (\<lambda>hex2_coord.
        bind_err (sorted_swaps hex1_coord hex2_coord) (\<lambda>swaps.
        bind_err (conduits_get (conduits (board g)) (sorted_pair swaps hex1_coord hex2_coord)) (\<lambda>found.
          case found of
            None \<Rightarrow> Inr (False, g\<lparr>message := ''Cannot sabotage your own or non-existent conduits.''\<rparr>)
          | Some (edge, conduit) \<Rightarrow>
              if player_id conduit = id_player player
              then Inr (False, g\<lparr>message := ''Cannot sabotage your own or non-existent conduits.''\<rparr>)
              else if reinforced conduit
              then Inr (False, g\<lparr>message := ''Cannot sabotage a reinforced conduit.''\<rparr>)
              else Inr (True,
                     (set_conduits (g\<lparr>players := spend (players g) i COST_SABOTAGE_CONDUIT\<rparr>)
                        (AList.delete edge (conduits (board g))))
                     \<lparr>message := name player @ '' sabotaged an opponent'' @ [CHR 0x27] @ ''s conduit.''\<rparr>))))))))"

section \<open>The session\<close>

text \<open>\<open>Game._check_win_condition\<close>.\<close>

definition check_win_condition :: "Board \<Rightarrow> Player \<Rightarrow> bool" where
  "check_win_condition b player =
     (let nexus_hex_coord = (0, 0);
          connected_to_nexus = is_connected b player (base_hex player) nexus_hex_coord
      in if \<not> connected_to_nexus then False
         else if int (card (get_controlled_resources b player)) < WIN_CONDITION_RESOURCES then False
         else True)"

text \<open>
  The dictionary \<open>action_handlers\<close> and its \<open>get\<close>: a list or a dictionary as the
  action type cannot be hashed; any other value that is not one of the three names gives
  \<open>None\<close>.
\<close>

datatype handler = PlaceConduit | ReinforceConduit | SabotageConduit

definition action_handlers_get :: "pyval \<Rightarrow> error + handler option" where
  "action_handlers_get action_type =
     (if \<not> py_hashable action_type then Inl TypeError
      else Inr (if action_type = PStr ''place_conduit'' then Some PlaceConduit
                else if action_type = PStr ''reinforce_conduit'' then Some ReinforceConduit
                else if action_type = PStr ''sabotage_conduit'' then Some SabotageConduit
                else None))"

fun run_handler :: "handler \<Rightarrow> Game \<Rightarrow> nat \<Rightarrow> action \<Rightarrow> error + (bool \<times> Game)" where
  "run_handler PlaceConduit g i a = handle_place_conduit g i a"
| "run_handler ReinforceConduit g i a = handle_reinforce_conduit g i a"
| "run_handler SabotageConduit g i a = handle_sabotage_conduit g i a"

text \<open>\<open>Game.handle_player_action\<close>.\<close>

definition handle_player_action :: "Game \<Rightarrow> string \<Rightarrow> action \<Rightarrow> error + (bool \<times> Game)" where
  "handle_player_action g pid a =
     bind_err (get_current_player g) (\<lambda>player.
       if id_player player \<noteq> pid \<or> game_over g
       then Inr (False, g\<lparr>message := ''Not your turn or game is over.''\<rparr>)
       else
         bind_err (action_handlers_get (action_get a ''type'')) (\<lambda>handler.
           case handler of
             None \<Rightarrow> Inr (False, g\<lparr>message := ''Invalid action type.''\<rparr>)
           | Some h \<Rightarrow>
               bind_err (run_handler h g (current_player_idx g) a) (\<lambda>(success, g1).
                 if success
                 then (if check_win_condition (board g1) (players g1 ! current_player_idx g1)
                       then Inr (True, g1\<lparr>game_over := True, winner := Some (current_player_idx g1),
                                         message := ''Game Over! '' @ name (players g1 ! current_player_idx g1) @
                                                    '' has connected to the Nexus and wins!''\<rparr>)
                       else Inr (True, g1))
                 else Inr (False, g1))))"

section \<open>Board setup and session creation\<close>

text \<open>
  One element of \<open>player_details\<close>: a dictionary with the keys \<open>id\<close>, \<open>name\<close> and
  \<open>color\<close>.
\<close>

record PlayerDetails =
  id_details :: string
  name_details :: string
  color_details :: string

text \<open>
  \<open>edge_hexes\<close> and \<open>internal_hexes\<close> are lists of references to the objects stored in
  \<open>self.hexes\<close>; a reference is the position of the object in the dictionary, and
  assigning to an attribute of the object changes the entry at that position.
\<close>

definition ring_distance :: "Hex \<Rightarrow> int" where
  "ring_distance h = max \<bar>q_hex h\<bar> (max \<bar>r_hex h\<bar> \<bar>s_hex h\<bar>)"

definition edge_hexes :: "int \<Rightarrow> (HexCoord \<times> Hex) list \<Rightarrow> nat list" where
  "edge_hexes rad hx = filter (\<lambda>k. ring_distance (snd (hx ! k)) = rad) [0..<length hx]"

definition internal_hexes :: "int \<Rightarrow> (HexCoord \<times> Hex) list \<Rightarrow> nat list" where
  "internal_hexes rad hx = filter (\<lambda>k. ring_distance (snd (hx ! k)) < rad) [0..<length hx]"

definition mutate_hex :: "(HexCoord \<times> Hex) list \<Rightarrow> nat \<Rightarrow> (Hex \<Rightarrow> Hex) \<Rightarrow> (HexCoord \<times> Hex) list" where
  "mutate_hex hx k f = hx[k := (fst (hx ! k), f (snd (hx ! k)))]"

text \<open>\<open>self.hexes[(0, 0)].resource = "NEXUS"\<close>; a missing key raises \<open>KeyError\<close>.\<close>

definition place_nexus :: "(HexCoord \<times> Hex) list \<Rightarrow> error + (HexCoord \<times> Hex) list" where
  "place_nexus hx =
     (case map_of hx (0, 0) of None \<Rightarrow> Inl KeyError
      | Some h \<Rightarrow> Inr (AList.map_entry (0, 0) (\<lambda>h. h\<lparr>resource := Some ''NEXUS''\<rparr>) hx))"

text \<open>
  The loop \<open>for i, player in enumerate(players)\<close>, from position \<open>i\<close> on; \<open>stride\<close> is
  \<open>len(edge_hexes) // len(players)\<close>, so that \<open>base_indices[i]\<close> is \<open>i * stride\<close>.
  The player leaves the loop with its base, and with the zero action points of
  \<open>Player.__init__\<close>.
\<close>

fun place_bases ::
  "nat list \<Rightarrow> nat \<Rightarrow> nat \<Rightarrow> PlayerDetails list \<Rightarrow> (HexCoord \<times> Hex) list \<Rightarrow>
     error + ((HexCoord \<times> Hex) list \<times> Player list)"
where
  "place_bases eh stride i [] hx = Inr (hx, [])"
| "place_bases eh stride i (d # ds) hx =
     (if i * stride < length eh
      then (let k = eh ! (i * stride);
                base = snd (hx ! k);
                player = \<lparr>id_player = id_details d, name = name_details d, color = color_details d,
                          action_points = 0, base_hex = coordinates base\<rparr>
            in bind_err (place_bases eh stride (i + 1) ds
                           (mutate_hex hx k (\<lambda>h. h\<lparr>is_base_for := Some (id_details d)\<rparr>)))
                 (\<lambda>(hx1, ps). Inr (hx1, player # ps)))
      else Inl IndexError)"

definition resource_types :: "string list" where
  "resource_types = [''IRON'', ''CARBON'', ''POWER'']"

text \<open>The loop \<open>for i in range(num_resource_nodes)\<close> over the shuffled spots.\<close>

definition place_resources :: "nat list \<Rightarrow> nat \<Rightarrow> (HexCoord \<times> Hex) list \<Rightarrow> (HexCoord \<times> Hex) list" where
  "place_resources spots num hx =
     fold (\<lambda>i h1. mutate_hex h1 (spots ! i)
                    (\<lambda>h. h\<lparr>resource := Some (resource_types ! (i mod length resource_types))\<rparr>))
          [0..<num] hx"

text \<open>
  \<open>Board._place_special_hexes\<close>. \<open>shuffle_hexes\<close> is what \<open>random.shuffle\<close> does to the list
  of resource spots. With no players the list comprehension for \<open>base_indices\<close> has no
  element and its division is never evaluated.
\<close>

definition place_special_hexes ::
  "int \<Rightarrow> (HexCoord \<times> Hex) list \<Rightarrow> PlayerDetails list \<Rightarrow> (nat list \<Rightarrow> nat list) \<Rightarrow>
     error + ((HexCoord \<times> Hex) list \<times> Player list)"
where
  "place_special_hexes rad hx ds shuffle_hexes =
     (let eh = edge_hexes rad hx;
          ih = internal_hexes rad hx
      in bind_err (place_nexus hx) (\<lambda>hx1.
           bind_err (place_bases eh (length eh div length ds) 0 ds hx1) (\<lambda>(hx2, ps).
             let potential_resource_spots = shuffle_hexes (filter (\<lambda>k. resource (snd (hx2 ! k)) = None) ih);
                 num_resource_nodes = min (length potential_resource_spots) (max 9 (length ds * 3))
             in Inr (place_resources potential_resource_spots num_resource_nodes hx2, ps))))"

text \<open>
  \<open>Game.__init__\<close>, with \<open>Board.__init__\<close> inlined. \<open>shuffle_players\<close> is what
  \<open>random.shuffle\<close> does to the list of players.
\<close>

definition new_game ::
  "PlayerDetails list \<Rightarrow> (nat list \<Rightarrow> nat list) \<Rightarrow> (Player list \<Rightarrow> Player list) \<Rightarrow> error + Game"
where
  "new_game player_details shuffle_hexes shuffle_players =
     bind_err (place_special_hexes GRID_RADIUS (generate_grid GRID_RADIUS) player_details shuffle_hexes)
       (\<lambda>(hx, ps).
          start_turn \<lparr>players = shuffle_players ps,
                      board = \<lparr>radius = GRID_RADIUS, hexes = hx, conduits = []\<rparr>,
                      turn_number = 0, current_player_idx = 0, game_over = False,
                      winner = None, message = ''Game has started!''\<rparr>)"

section \<open>What an action can change\<close>

lemma bind_errE:
  assumes "bind_err m f = Inr y"
  obtains x where "m = Inr x" and "f x = Inr y"
  using assms by (cases m) (simp_all add: bind_err_def)

lemma place_fail:
  "handle_place_conduit g i a = Inr (False, g') \<Longrightarrow> g' = g\<lparr>message := message g'\<rparr>"
  unfolding handle_place_conduit_def Let_def
  by ((elim bind_errE | clarsimp split: if_splits option.splits prod.splits)+)

lemma reinforce_fail:
  "handle_reinforce_conduit g i a = Inr (False, g') \<Longrightarrow> g' = g\<lparr>message := message g'\<rparr>"
  unfolding handle_reinforce_conduit_def Let_def
  by ((elim bind_errE | clarsimp split: if_splits option.splits prod.splits)+)

lemma sabotage_fail:
  "handle_sabotage_conduit g i a = Inr (False, g') \<Longrightarrow> g' = g\<lparr>message := message g'\<rparr>"
  unfolding handle_sabotage_conduit_def Let_def
  by ((elim bind_errE | clarsimp split: if_splits option.splits prod.splits)+)

lemma run_handler_fail:
  "run_handler h g i a = Inr (False, g') \<Longrightarrow> g' = g\<lparr>message := message g'\<rparr>"
  by (cases h) (simp_all add: place_fail reinforce_fail sabotage_fail)

text \<open>
  A successful handler spends \<open>cost\<close> action points of player \<open>i\<close>, which the player had,
  and leaves the grid, the turn and the outcome of the game as they were.
\<close>

definition action_frame :: "Game \<Rightarrow> nat \<Rightarrow> int \<Rightarrow> Game \<Rightarrow> bool" where
  "action_frame g i cost g' =
     (players g' = spend (players g) i cost \<and> cost \<le> action_points (players g ! i) \<and>
      hexes (board g') = hexes (board g) \<and> radius (board g') = radius (board g) \<and>
      turn_number g' = turn_number g \<and> current_player_idx g' = current_player_idx g \<and>
      game_over g' = game_over g \<and> winner g' = winner g)"

lemma place_success:
  "handle_place_conduit g i a = Inr (True, g') \<Longrightarrow> action_frame g i COST_PLACE_CONDUIT g'"
  unfolding handle_place_conduit_def Let_def
  apply ((elim bind_errE | clarsimp split: if_splits option.splits prod.splits)+)
   apply (simp_all add: action_frame_def set_conduits_def)
  done

lemma reinforce_success:
  "handle_reinforce_conduit g i a = Inr (True, g') \<Longrightarrow> action_frame g i COST_REINFORCE_CONDUIT g'"
  unfolding handle_reinforce_conduit_def Let_def
  apply ((elim bind_errE | clarsimp split: if_splits option.splits prod.splits)+)
  apply (simp_all add: action_frame_def set_conduits_def)
  done

lemma sabotage_success:
  "handle_sabotage_conduit g i a = Inr (True, g') \<Longrightarrow> action_frame g i COST_SABOTAGE_CONDUIT g'"
  unfolding handle_sabotage_conduit_def Let_def
  apply ((elim bind_errE | clarsimp split: if_splits option.splits prod.splits)+)
  apply (simp_all add: action_frame_def set_conduits_def)
  done

lemma run_handler_success:
  assumes "run_handler h g i a = Inr (True, g')"
  obtains cost where "0 \<le> cost" and "action_frame g i cost g'"
proof (cases h)
  case PlaceConduit
  with assms have "action_frame g i COST_PLACE_CONDUIT g'" by (simp add: place_success)
  then show ?thesis by (rule that[rotated]) (simp add: COST_PLACE_CONDUIT_def)
next
  case ReinforceConduit
  with assms have "action_frame g i COST_REINFORCE_CONDUIT g'" by (simp add: reinforce_success)
  then show ?thesis by (rule that[rotated]) (simp add: COST_REINFORCE_CONDUIT_def)
next
  case SabotageConduit
  with assms have "action_frame g i COST_SABOTAGE_CONDUIT g'" by (simp add: sabotage_success)
  then show ?thesis by (rule that[rotated]) (simp add: COST_SABOTAGE_CONDUIT_def)
qed

text \<open>The end of \<open>handle_player_action\<close> after a successful handler.\<close>

definition win_update :: "Game \<Rightarrow> Game" where
  "win_update g1 =
     (if check_win_condition (board g1) (players g1 ! current_player_idx g1)
      then g1\<lparr>game_over := True, winner := Some (current_player_idx g1),
              message := ''Game Over! '' @ name (players g1 ! current_player_idx g1) @
                         '' has connected to the Nexus and wins!''\<rparr>
      else g1)"

lemma handle_player_action_success:
  assumes "handle_player_action g pid a = Inr (True, g')"
  obtains h g1 where "current_player_idx g < length (players g)"
    and "id_player (players g ! current_player_idx g) = pid" and "\<not> game_over g"
    and "run_handler h g (current_player_idx g) a = Inr (True, g1)"
    and "g' = win_update g1"
proof -
  from assms obtain player where cp: "get_current_player g = Inr player"
    and r1: "(if id_player player \<noteq> pid \<or> game_over g
       then Inr (False, g\<lparr>message := ''Not your turn or game is over.''\<rparr>)
       else
         bind_err (action_handlers_get (action_get a ''type'')) (\<lambda>handler.
           case handler of
             None \<Rightarrow> Inr (False, g\<lparr>message := ''Invalid action type.''\<rparr>)
           | Some h \<Rightarrow>
               bind_err (run_handler h g (current_player_idx g) a) (\<lambda>(success, g1).
                 if success then Inr (True, win_update g1) else Inr (False, g1)))) = Inr (True, g')"
    unfolding handle_player_action_def win_update_def
    by (elim bind_errE) (simp add: if_distrib cong: if_cong)
  from cp have idx: "current_player_idx g < length (players g)"
    and pl: "player = players g ! current_player_idx g"
    by (auto simp: get_current_player_def split: if_splits)
  from r1 have turn: "id_player player = pid" "\<not> game_over g"
    by (auto split: if_splits)
  with r1 obtain handler where "(case handler of
             None \<Rightarrow> Inr (False, g\<lparr>message := ''Invalid action type.''\<rparr>)
           | Some h \<Rightarrow>
               bind_err (run_handler h g (current_player_idx g) a) (\<lambda>(success, g1).
                 if success then Inr (True, win_update g1) else Inr (False, g1))) = Inr (True, g')"
    by (auto elim: bind_errE)
  then obtain h where hb: "bind_err (run_handler h g (current_player_idx g) a) (\<lambda>(success, g1).
                 if success then Inr (True, win_update g1) else Inr (False, g1)) = Inr (True, g')"
    by (cases handler) auto
  show ?thesis
  proof (cases "run_handler h g (current_player_idx g) a")
    case (Inl e)
    with hb show ?thesis by (simp add: bind_err_def)
  next
    case (Inr res)
    obtain success g1 where res: "res = (success, g1)" by (cases res)
    from hb Inr res
    have rr: "(if success then Inr (True, win_update g1) else Inr (False, g1)) =
                (Inr (True, g') :: error + bool \<times> Game)"
      by (simp add: bind_err_def)
    from rr have s: "success" and g': "g' = win_update g1"
      by (simp_all split: if_splits)
    from Inr res s have "run_handler h g (current_player_idx g) a = Inr (True, g1)" by simp
    with idx pl turn g' show ?thesis by (intro that[of h g1]) simp_all
  qed
qed

lemma handle_player_action_fail:
  "handle_player_action g pid a = Inr (False, g') \<Longrightarrow> g' = g\<lparr>message := message g'\<rparr>"
  unfolding handle_player_action_def
  by ((elim bind_errE | clarsimp split: if_splits option.splits prod.splits dest!: run_handler_fail)+)

section \<open>Payloads with well-formed coordinates\<close>

lemma tuple_lt_ints:
  "tuple_lt [PInt a, PInt b] [PInt c, PInt d] = Inr (coord_lt (a, b) (c, d))"
  by (auto simp: coord_lt_def)

lemma as_int_cases:
  assumes "as_int v = Some i"
  obtains "v = PInt i" | b where "v = PBool b" and "i = (if b then 1 else 0)"
  using assms by (cases v) auto

lemma tuple_lt_coords:
  assumes "as_coord t1 = Some c1" and "as_coord t2 = Some c2"
  shows "tuple_lt t1 t2 = Inr (coord_lt c1 c2)"
proof -
  from assms(1) obtain x1 y1 where t1: "t1 = [x1, y1]" and x1: "as_int x1 = Some (fst c1)" and y1: "as_int y1 = Some (snd c1)"
    by (cases t1 rule: as_coord.cases) (auto split: option.splits)
  from assms(2) obtain x2 y2 where t2: "t2 = [x2, y2]" and x2: "as_int x2 = Some (fst c2)" and y2: "as_int y2 = Some (snd c2)"
    by (cases t2 rule: as_coord.cases) (auto split: option.splits)
  have eq: "\<And>u v i j. as_int u = Some i \<Longrightarrow> as_int v = Some j \<Longrightarrow> py_eq u v = (i = j)"
    by (erule as_int_cases; erule as_int_cases; auto)
  have lt: "\<And>u v i j. as_int u = Some i \<Longrightarrow> as_int v = Some j \<Longrightarrow> py_lt u v = Inr (i < j)"
    by (erule as_int_cases; erule as_int_cases; auto)
  show ?thesis
    unfolding t1 t2 using eq[OF x1 x2] eq[OF y1 y2] lt[OF x1 x2] lt[OF y1 y2]
    by (auto simp: coord_lt_def)
qed

lemma hashable_coord:
  assumes "as_coord t = Some c" shows "list_all py_hashable t"
proof -
  from assms obtain x y where t: "t = [x, y]" and x: "as_int x \<noteq> None" and y: "as_int y \<noteq> None"
    by (cases t rule: as_coord.cases) (auto split: option.splits)
  from x y show ?thesis unfolding t by (cases x; cases y; simp)
qed

lemma conduits_get_coords:
  assumes "as_coord t1 = Some c1" and "as_coord t2 = Some c2"
  shows "conduits_get cs (sorted_pair (coord_lt c2 c1) t1 t2) =
         Inr (case map_of cs (sorted_edge c1 c2) of None \<Rightarrow> None
              | Some d \<Rightarrow> Some (sorted_edge c1 c2, d))"
  using assms hashable_coord[OF assms(1)] hashable_coord[OF assms(2)]
  by (auto simp: conduits_get_def sorted_pair_def sorted_edge_def split: option.splits)


text \<open>A field that holds a list equal to a coordinate pair.\<close>

definition coord_field :: "action \<Rightarrow> string \<Rightarrow> HexCoord option" where
  "coord_field a k = (case map_of a k of Some (PList t) \<Rightarrow> as_coord t | _ \<Rightarrow> None)"

lemma coord_fieldE:
  assumes "coord_field a k = Some c"
  obtains t where "action_item a k = Inr (PList t)" and "as_coord t = Some c"
  using assms by (auto simp: coord_field_def action_item_def split: option.splits pyval.splits)

lemma sabotage_total:
  assumes "coord_field a ''hex1'' = Some c1" and "coord_field a ''hex2'' = Some c2"
  shows "handle_sabotage_conduit g i a =
     Inr (let player = players g ! i in
      if action_points player < COST_SABOTAGE_CONDUIT
      then (False, g\<lparr>message := ''Not enough AP to sabotage.''\<rparr>)
      else case map_of (conduits (board g)) (sorted_edge c1 c2) of
            None \<Rightarrow> (False, g\<lparr>message := ''Cannot sabotage your own or non-existent conduits.''\<rparr>)
          | Some conduit \<Rightarrow>
              if player_id conduit = id_player player
              then (False, g\<lparr>message := ''Cannot sabotage your own or non-existent conduits.''\<rparr>)
              else if reinforced conduit
              then (False, g\<lparr>message := ''Cannot sabotage a reinforced conduit.''\<rparr>)
              else (True,
                     (set_conduits (g\<lparr>players := spend (players g) i COST_SABOTAGE_CONDUIT\<rparr>)
                        (AList.delete (sorted_edge c1 c2) (conduits (board g))))
                     \<lparr>message := name player @ '' sabotaged an opponent'' @ [CHR 0x27] @ ''s conduit.''\<rparr>))"
proof -
  from assms(1) obtain t1 where h1: "action_item a ''hex1'' = Inr (PList t1)" and a1: "as_coord t1 = Some c1"
    by (rule coord_fieldE)
  from assms(2) obtain t2 where h2: "action_item a ''hex2'' = Inr (PList t2)" and a2: "as_coord t2 = Some c2"
    by (rule coord_fieldE)
  show ?thesis
  proof (cases "map_of (conduits (board g)) (sorted_edge c1 c2)")
    case None
    then show ?thesis
      unfolding handle_sabotage_conduit_def Let_def
      by (simp add: h1 h2 bind_err_def sorted_swaps_def tuple_lt_coords[OF a2 a1] conduits_get_coords[OF a1 a2])
  next
    case (Some d)
    then show ?thesis
      unfolding handle_sabotage_conduit_def Let_def
      by (simp add: h1 h2 bind_err_def sorted_swaps_def tuple_lt_coords[OF a2 a1] conduits_get_coords[OF a1 a2])
  qed
qed





lemma bind_err_no_error:
  assumes "m \<noteq> Inl e" and "\<And>x. m = Inr x \<Longrightarrow> f x \<noteq> Inl e"
  shows "bind_err m f \<noteq> Inl e"
  using assms by (cases m) (auto simp: bind_err_def)

lemma bind_err_no_error_all:
  assumes "\<And>e. m \<noteq> Inl e" and "\<And>x. m = Inr x \<Longrightarrow> f x \<noteq> Inl e"
  shows "bind_err m f \<noteq> Inl e"
  using assms by (cases m) (auto simp: bind_err_def)

section \<open>Turn start and session creation, unfolded\<close>

lemma is_connected_ap [simp]:
  "is_connected b (p\<lparr>action_points := x\<rparr>) s e = is_connected b p s e"
  by (simp add: is_connected_def)

lemma get_controlled_resources_ap [simp]:
  "get_controlled_resources b (p\<lparr>action_points := x\<rparr>) = get_controlled_resources b p"
  by (simp add: get_controlled_resources_def)

lemma start_turn_Inr:
  assumes "start_turn g = Inr g'"
  shows "current_player_idx g < length (players g)"
    and "g' = g\<lparr>turn_number := turn_number g + 1,
               players := (players g)[current_player_idx g :=
                  (players g ! current_player_idx g)\<lparr>action_points := BASE_AP_PER_TURN +
                     int (card (get_controlled_resources (board g) (players g ! current_player_idx g))) * RESOURCE_BONUS_AP\<rparr>],
               message := message g'\<rparr>"
  using assms
  by (auto simp: start_turn_def Let_def get_current_player_def bind_err_def split: if_splits)

lemma start_turn_ap:
  assumes "start_turn g = Inr g'"
  shows "action_points (players g' ! current_player_idx g') =
           BASE_AP_PER_TURN + int (card (get_controlled_resources (board g') (players g' ! current_player_idx g'))) * RESOURCE_BONUS_AP"
proof -
  note s = start_turn_Inr[OF assms]
  show ?thesis by (subst (1 2 3 4 5) s(2)) (simp add: s(1))
qed

lemma next_turn_Inr:
  assumes "next_turn g = Inr g'" and "\<not> game_over g"
  shows "players g \<noteq> []"
    and "start_turn (g\<lparr>current_player_idx := (current_player_idx g + 1) mod length (players g)\<rparr>) = Inr g'"
  using assms by (auto simp: next_turn_def split: if_splits)

lemma new_game_Inr:
  assumes "new_game ds sh1 sh2 = Inr g'"
  obtains hx ps where "place_special_hexes GRID_RADIUS (generate_grid GRID_RADIUS) ds sh1 = Inr (hx, ps)"
    and "start_turn \<lparr>players = sh2 ps,
                      board = \<lparr>radius = GRID_RADIUS, hexes = hx, conduits = []\<rparr>,
                      turn_number = 0, current_player_idx = 0, game_over = False,
                      winner = None, message = ''Game has started!''\<rparr> = Inr g'"
proof -
  from assms obtain res where r: "place_special_hexes GRID_RADIUS (generate_grid GRID_RADIUS) ds sh1 = Inr res"
    and f: "(case res of (hx, ps) \<Rightarrow> start_turn \<lparr>players = sh2 ps,
                      board = \<lparr>radius = GRID_RADIUS, hexes = hx, conduits = []\<rparr>,
                      turn_number = 0, current_player_idx = 0, game_over = False,
                      winner = None, message = ''Game has started!''\<rparr>) = Inr g'"
    unfolding new_game_def by (rule bind_errE)
  obtain hx ps where "res = (hx, ps)" by (cases res)
  with r f show ?thesis by (intro that[of hx ps]) simp_all
qed

lemma spend_nth:
  "i < length ps \<Longrightarrow> spend ps i cost ! i = (ps ! i)\<lparr>action_points := action_points (ps ! i) - cost\<rparr>"
  by (simp add: spend_def)

section \<open>A session for the scenarios\<close>

text \<open>
  Two players, and a random source that leaves every list in the order it had: the first
  player of the list moves first, from the base at \<open>(-4, 0)\<close>.
\<close>

definition demo_details :: "PlayerDetails list" where
  "demo_details = [\<lparr>id_details = ''a'', name_details = ''Alpha'', color_details = ''red''\<rparr>,
                   \<lparr>id_details = ''b'', name_details = ''Beta'', color_details = ''blue''\<rparr>]"

definition place_action :: "HexCoord \<Rightarrow> HexCoord \<Rightarrow> action" where
  "place_action c1 c2 = [(''type'', PStr ''place_conduit''),
                          (''hex1'', PList [PInt (fst c1), PInt (snd c1)]),
                          (''hex2'', PList [PInt (fst c2), PInt (snd c2)])]"

definition reinforce_action :: "HexCoord \<Rightarrow> HexCoord \<Rightarrow> action" where
  "reinforce_action c1 c2 = [(''type'', PStr ''reinforce_conduit''),
                              (''hex1'', PList [PInt (fst c1), PInt (snd c1)]),
                              (''hex2'', PList [PInt (fst c2), PInt (snd c2)])]"

definition sabotage_action :: "HexCoord \<Rightarrow> HexCoord \<Rightarrow> action" where
  "sabotage_action c1 c2 = [(''type'', PStr ''sabotage_conduit''),
                             (''hex1'', PList [PInt (fst c1), PInt (snd c1)]),
                             (''hex2'', PList [PInt (fst c2), PInt (snd c2)])]"


text \<open>A board without conduits, a player, and a board with two conduits of that player.\<close>

definition empty_board :: Board where
  "empty_board = \<lparr>radius = GRID_RADIUS, hexes = generate_grid GRID_RADIUS, conduits = []\<rparr>"

definition alpha :: Player where
  "alpha = \<lparr>id_player = ''a'', name = ''Alpha'', color = ''red'', action_points = 0, base_hex = (-4, 0)\<rparr>"

definition demo_board :: Board where
  "demo_board = \<lparr>radius = GRID_RADIUS, hexes = generate_grid GRID_RADIUS,
                  conduits = [(((-4, 0), (-3, 0)), \<lparr>player_id = ''a'', reinforced = False\<rparr>),
                              (((-2, 0), (-1, 0)), \<lparr>player_id = ''a'', reinforced = False\<rparr>)]\<rparr>"

text \<open>
  Twenty-five players, one more than the grid of radius 4 has edge cells.
\<close>

definition crowd :: "PlayerDetails list" where
  "crowd = map (\<lambda>i. \<lparr>id_details = str_nat i, name_details = ''P'', color_details = ''grey''\<rparr>) [0..<25]"

text \<open>
  What a caller does with a session: a sequence of calls of \<open>handle_player_action\<close> and
  \<open>next_turn\<close>, stopped by the first exception.
\<close>

datatype call = Action string action | NextTurn

fun run_calls :: "Game \<Rightarrow> call list \<Rightarrow> error + Game" where
  "run_calls g [] = Inr g"
| "run_calls g (Action pid a # cs) = bind_err (handle_player_action g pid a) (\<lambda>(ok, g1). run_calls g1 cs)"
| "run_calls g (NextTurn # cs) = bind_err (next_turn g) (\<lambda>g1. run_calls g1 cs)"

definition demo_run :: "call list \<Rightarrow> error + Game" where
  "demo_run cs = bind_err (new_game demo_details id id) (\<lambda>g. run_calls g cs)"

section \<open>Reachable sessions\<close>

text \<open>
  The sessions a caller can hold: a session as \<open>Game.__init__\<close> leaves it, for some
  outcome of the two shuffles (each a permutation of its list), and then any sequence of
  calls of \<open>handle_player_action\<close> and \<open>next_turn\<close> that return. A call that raises
  does so before it assigns anything, so it adds no session.
\<close>

inductive reachable :: "Game \<Rightarrow> bool" where
  created: "\<lbrakk>new_game ds shuffle_hexes shuffle_players = Inr g;
             \<forall>xs. mset (shuffle_hexes xs) = mset xs;
             \<forall>xs. mset (shuffle_players xs) = mset xs\<rbrakk> \<Longrightarrow> reachable g"
| action: "\<lbrakk>reachable g; handle_player_action g pid a = Inr (ok, g')\<rbrakk> \<Longrightarrow> reachable g'"
| turn: "\<lbrakk>reachable g; next_turn g = Inr g'\<rbrakk> \<Longrightarrow> reachable g'"

definition ap_nonneg :: "Player list \<Rightarrow> bool" where
  "ap_nonneg ps = list_all (\<lambda>p. 0 \<le> action_points p) ps"

lemma ap_nonneg_update:
  "ap_nonneg ps \<Longrightarrow> 0 \<le> action_points p \<Longrightarrow> ap_nonneg (ps[i := p])"
  by (auto simp: ap_nonneg_def list_all_iff dest: set_update_subset_insert[THEN subsetD])

lemma ap_nonneg_spend:
  assumes "ap_nonneg ps" and "cost \<le> action_points (ps ! i)"
  shows "ap_nonneg (spend ps i cost)"
  unfolding spend_def using assms by (intro ap_nonneg_update) simp_all

lemma place_bases_ap:
  "place_bases eh stride i ds hx = Inr (hx1, ps) \<Longrightarrow> list_all (\<lambda>p. action_points p = 0) ps"
proof (induction ds arbitrary: i hx hx1 ps)
  case Nil
  then show ?case by simp
next
  case (Cons d ds)
  from Cons.prems have lt: "i * stride < length eh" by (simp split: if_splits)
  let ?hx = "mutate_hex hx (eh ! (i * stride)) (\<lambda>h. h\<lparr>is_base_for := Some (id_details d)\<rparr>)"
  let ?p = "\<lparr>id_player = id_details d, name = name_details d, color = color_details d,
              action_points = 0, base_hex = coordinates (snd (hx ! (eh ! (i * stride))))\<rparr>"
  from Cons.prems lt
  have "bind_err (place_bases eh stride (i + 1) ds ?hx) (\<lambda>(hx1', ps'). Inr (hx1', ?p # ps')) = Inr (hx1, ps)"
    by (simp add: Let_def)
  then obtain res where r: "place_bases eh stride (i + 1) ds ?hx = Inr res"
    and f: "(case res of (hx1', ps') \<Rightarrow> Inr (hx1', ?p # ps')) = (Inr (hx1, ps) :: error + _)"
    by (rule bind_errE)
  obtain hx2 ps2 where res: "res = (hx2, ps2)" by (cases res)
  from r res have "list_all (\<lambda>p. action_points p = 0) ps2" by (intro Cons.IH[of "i + 1" ?hx hx2 ps2]) simp
  moreover from f res have "ps = ?p # ps2" by simp
  ultimately show ?case by simp
qed

lemma place_special_hexes_bases:
  assumes "place_special_hexes rad hx ds sh = Inr (hx', ps)"
  obtains hx1 hx2 where "place_nexus hx = Inr hx1"
    and "place_bases (edge_hexes rad hx) (length (edge_hexes rad hx) div length ds) 0 ds hx1 = Inr (hx2, ps)"
    and "hx' = place_resources (sh (filter (\<lambda>k. resource (snd (hx2 ! k)) = None) (internal_hexes rad hx)))
                 (min (length (sh (filter (\<lambda>k. resource (snd (hx2 ! k)) = None) (internal_hexes rad hx))))
                      (max 9 (length ds * 3))) hx2"
proof -
  from assms obtain hx1 where n: "place_nexus hx = Inr hx1"
    and r1: "bind_err (place_bases (edge_hexes rad hx) (length (edge_hexes rad hx) div length ds) 0 ds hx1)
       (\<lambda>(hx2, ps).
             let potential_resource_spots = sh (filter (\<lambda>k. resource (snd (hx2 ! k)) = None) (internal_hexes rad hx));
                 num_resource_nodes = min (length potential_resource_spots) (max 9 (length ds * 3))
             in Inr (place_resources potential_resource_spots num_resource_nodes hx2, ps)) = Inr (hx', ps)"
    unfolding place_special_hexes_def Let_def by (rule bind_errE)
  from r1 obtain res where b: "place_bases (edge_hexes rad hx) (length (edge_hexes rad hx) div length ds) 0 ds hx1 = Inr res"
    and r2: "(case res of (hx2, ps) \<Rightarrow>
             let potential_resource_spots = sh (filter (\<lambda>k. resource (snd (hx2 ! k)) = None) (internal_hexes rad hx));
                 num_resource_nodes = min (length potential_resource_spots) (max 9 (length ds * 3))
             in Inr (place_resources potential_resource_spots num_resource_nodes hx2, ps)) = (Inr (hx', ps) :: error + _)"
    by (rule bind_errE)
  obtain hx2 ps2 where res: "res = (hx2, ps2)" by (cases res)
  from r2 res have "ps2 = ps" and "hx' = place_resources (sh (filter (\<lambda>k. resource (snd (hx2 ! k)) = None) (internal_hexes rad hx)))
                 (min (length (sh (filter (\<lambda>k. resource (snd (hx2 ! k)) = None) (internal_hexes rad hx))))
                      (max 9 (length ds * 3))) hx2"
    by (simp_all add: Let_def)
  with n b res show ?thesis by (intro that[of hx1 hx2]) simp_all
qed

lemma place_special_hexes_ap:
  assumes "place_special_hexes rad hx ds sh = Inr (hx', ps)"
  shows "list_all (\<lambda>p. action_points p = 0) ps"
  using assms by (elim place_special_hexes_bases) (rule place_bases_ap)

lemma start_turn_players:
  assumes "start_turn g = Inr g'"
  shows "players g' = (players g)[current_player_idx g :=
                  (players g ! current_player_idx g)\<lparr>action_points := BASE_AP_PER_TURN +
                     int (card (get_controlled_resources (board g) (players g ! current_player_idx g))) * RESOURCE_BONUS_AP\<rparr>]"
  using assms
  by (auto simp: start_turn_def Let_def get_current_player_def bind_err_def split: if_splits)

lemma new_game_ap:
  assumes "new_game ds sh1 sh2 = Inr g" and perm: "\<forall>xs. mset (sh2 xs) = mset xs"
  shows "ap_nonneg (players g)"
proof -
  from assms(1) obtain hx ps where p: "place_special_hexes GRID_RADIUS (generate_grid GRID_RADIUS) ds sh1 = Inr (hx, ps)"
    and st: "start_turn \<lparr>players = sh2 ps,
                      board = \<lparr>radius = GRID_RADIUS, hexes = hx, conduits = []\<rparr>,
                      turn_number = 0, current_player_idx = 0, game_over = False,
                      winner = None, message = ''Game has started!''\<rparr> = Inr g"
    by (rule new_game_Inr)
  from p have "list_all (\<lambda>p. action_points p = 0) ps" by (rule place_special_hexes_ap)
  moreover from perm have "set (sh2 ps) = set ps" by (metis set_mset_mset)
  ultimately have a: "ap_nonneg (sh2 ps)" by (simp add: ap_nonneg_def list_all_iff)
  show ?thesis
    unfolding start_turn_players[OF st] using a
    by (intro ap_nonneg_update) (simp_all add: BASE_AP_PER_TURN_def RESOURCE_BONUS_AP_def)
qed

lemma start_turn_ap_nonneg:
  assumes "start_turn g = Inr g'" and "ap_nonneg (players g)"
  shows "ap_nonneg (players g')"
proof -
  show ?thesis
    unfolding start_turn_players[OF assms(1)] using assms(2)
    by (intro ap_nonneg_update) (simp_all add: BASE_AP_PER_TURN_def RESOURCE_BONUS_AP_def)
qed

lemma next_turn_ap_nonneg:
  assumes "next_turn g = Inr g'" and "ap_nonneg (players g)"
  shows "ap_nonneg (players g')"
proof (cases "game_over g")
  case True
  with assms show ?thesis by (simp add: next_turn_def)
next
  case False
  show ?thesis
    by (rule start_turn_ap_nonneg[OF next_turn_Inr(2)[OF assms(1) False]]) (simp add: assms(2))
qed

lemma action_ap_nonneg:
  assumes "handle_player_action g pid a = Inr (ok, g')" and "ap_nonneg (players g)"
  shows "ap_nonneg (players g')"
proof (cases ok)
  case False
  with assms(1) have "g' = g\<lparr>message := message g'\<rparr>" by (intro handle_player_action_fail) simp
  then have "players g' = players (g\<lparr>message := message g'\<rparr>)" by (rule arg_cong)
  with assms(2) show ?thesis by simp
next
  case True
  with assms(1) have s: "handle_player_action g pid a = Inr (True, g')" by simp
  from s obtain h g1 where rh: "run_handler h g (current_player_idx g) a = Inr (True, g1)"
    and g': "g' = win_update g1"
    by (rule handle_player_action_success)
  from rh obtain cost where fr: "action_frame g (current_player_idx g) cost g1"
    by (rule run_handler_success)
  from g' have "players g' = players g1" by (simp add: win_update_def)
  with fr assms(2) show ?thesis
    by (simp add: action_frame_def ap_nonneg_spend)
qed

lemma reachable_ap_nonneg: "reachable g \<Longrightarrow> ap_nonneg (players g)"
proof (induction rule: reachable.induct)
  case (created ds shuffle_hexes shuffle_players g)
  from created(1,3) show ?case by (rule new_game_ap)
next
  case (action g pid a ok g')
  from action.hyps(2) action.IH show ?case by (rule action_ap_nonneg)
next
  case (turn g g')
  from turn.hyps(2) turn.IH show ?case by (rule next_turn_ap_nonneg)
qed

lemma run_calls_reachable:
  "reachable g \<Longrightarrow> run_calls g cs = Inr g' \<Longrightarrow> reachable g'"
proof (induction cs arbitrary: g)
  case Nil
  then show ?case by simp
next
  case (Cons c cs)
  show ?case
  proof (cases c)
    case (Action pid a)
    with Cons.prems(2)
    have "bind_err (handle_player_action g pid a) (\<lambda>(ok, g1). run_calls g1 cs) = Inr g'" by simp
    then obtain res where r: "handle_player_action g pid a = Inr res"
      and f: "(case res of (ok, g1) \<Rightarrow> run_calls g1 cs) = Inr g'"
      by (rule bind_errE)
    obtain ok g1 where res: "res = (ok, g1)" by (cases res)
    from Cons.prems(1) r res have "reachable g1" by (intro reachable.action[of g pid a ok g1]) simp_all
    moreover from f res have "run_calls g1 cs = Inr g'" by simp
    ultimately show ?thesis by (rule Cons.IH)
  next
    case NextTurn
    with Cons.prems(2) have "bind_err (next_turn g) (\<lambda>g1. run_calls g1 cs) = Inr g'" by simp
    then obtain g1 where r: "next_turn g = Inr g1" and f: "run_calls g1 cs = Inr g'"
      by (rule bind_errE)
    from Cons.prems(1) r have "reachable g1" by (rule reachable.turn)
    then show ?thesis using f by (rule Cons.IH)
  qed
qed

lemma demo_run_reachable: "demo_run cs = Inr g \<Longrightarrow> reachable g"
proof -
  assume "demo_run cs = Inr g"
  then obtain g0 where n: "new_game demo_details id id = Inr g0" and r: "run_calls g0 cs = Inr g"
    unfolding demo_run_def by (rule bind_errE)
  from n have "reachable g0" by (rule reachable.created) simp_all
  then show ?thesis using r by (rule run_calls_reachable)
qed

text \<open>
  Every reachable session has a current player, and has no winner while the game is not
  over.
\<close>

definition session_ok :: "Game \<Rightarrow> bool" where
  "session_ok g = (current_player_idx g < length (players g) \<and> (game_over g \<or> winner g = None))"

lemma start_turn_session_ok:
  assumes "start_turn g = Inr g'" and "game_over g \<or> winner g = None"
  shows "session_ok g'"
proof -
  note s = start_turn_Inr[OF assms(1)]
  have "current_player_idx g' = current_player_idx g" "length (players g') = length (players g)"
    "game_over g' = game_over g" "winner g' = winner g"
    by (subst s(2), simp)+
  with s(1) assms(2) show ?thesis by (simp add: session_ok_def)
qed

lemma action_session_ok:
  assumes "handle_player_action g pid a = Inr (ok, g')" and "session_ok g"
  shows "session_ok g'"
proof (cases ok)
  case False
  with assms(1) have "g' = g\<lparr>message := message g'\<rparr>" by (intro handle_player_action_fail) simp
  then have "session_ok g' = session_ok (g\<lparr>message := message g'\<rparr>)" by (rule arg_cong)
  with assms(2) show ?thesis by (simp add: session_ok_def)
next
  case True
  with assms(1) have s: "handle_player_action g pid a = Inr (True, g')" by simp
  from s obtain h g1 where rh: "run_handler h g (current_player_idx g) a = Inr (True, g1)"
    and g': "g' = win_update g1"
    by (rule handle_player_action_success)
  from rh obtain cost where fr: "action_frame g (current_player_idx g) cost g1"
    by (rule run_handler_success)
  from fr assms(2) have "session_ok g1"
    by (simp add: action_frame_def session_ok_def spend_def)
  then show ?thesis by (simp add: g' win_update_def session_ok_def)
qed

lemma next_turn_session_ok:
  assumes "next_turn g = Inr g'" and "session_ok g"
  shows "session_ok g'"
proof (cases "game_over g")
  case True
  with assms show ?thesis by (simp add: next_turn_def)
next
  case False
  with assms(2) have "winner g = None" by (simp add: session_ok_def)
  then show ?thesis
    by (intro start_turn_session_ok[OF next_turn_Inr(2)[OF assms(1) False]]) simp
qed

lemma reachable_session_ok: "reachable g \<Longrightarrow> session_ok g"
proof (induction rule: reachable.induct)
  case (created ds shuffle_hexes shuffle_players g)
  from created(1) show ?case
    by (elim new_game_Inr) (rule start_turn_session_ok, assumption, simp)
next
  case (action g pid a ok g')
  from action.hyps(2) action.IH show ?case by (rule action_session_ok)
next
  case (turn g g')
  from turn.hyps(2) turn.IH show ?case by (rule next_turn_session_ok)
qed

section \<open>Board setup, unfolded\<close>

text \<open>The coordinates of the hex object at a position of the dictionary.\<close>

definition cell_of :: "(HexCoord \<times> Hex) list \<Rightarrow> nat \<Rightarrow> HexCoord" where
  "cell_of hx k = coordinates (snd (hx ! k))"

lemma length_mutate_hex [simp]: "length (mutate_hex hx k f) = length hx"
  by (simp add: mutate_hex_def)

lemma cell_of_mutate_hex:
  assumes "\<And>h. coordinates (f h) = coordinates h"
  shows "cell_of (mutate_hex hx k f) j = cell_of hx j"
proof (cases "k < length hx")
  case True
  then show ?thesis by (cases "j = k") (simp_all add: cell_of_def mutate_hex_def assms)
next
  case False
  then have "hx[k := (fst (hx ! k), f (snd (hx ! k)))] = hx" by (intro list_update_beyond) simp
  then show ?thesis by (simp add: cell_of_def mutate_hex_def)
qed

lemma map_fst_mutate_hex: "map fst (mutate_hex hx k f) = map fst hx"
proof (cases "k < length hx")
  case True
  then show ?thesis by (simp add: mutate_hex_def map_update list_update_same_conv)
next
  case False
  then have "hx[k := (fst (hx ! k), f (snd (hx ! k)))] = hx" by (intro list_update_beyond) simp
  then show ?thesis by (simp add: mutate_hex_def)
qed

lemma map_entry_cells:
  assumes "\<And>h. coordinates (f h) = coordinates h"
  shows "map (\<lambda>e. (fst e, coordinates (snd e))) (AList.map_entry c f hx) =
         map (\<lambda>e. (fst e, coordinates (snd e))) hx"
  by (induction hx) (auto simp: assms)

lemma place_nexus_spec:
  assumes "place_nexus hx = Inr hx1"
  shows "length hx1 = length hx" and "map fst hx1 = map fst hx" and "k < length hx \<Longrightarrow> cell_of hx1 k = cell_of hx k"
proof -
  from assms have hx1: "hx1 = AList.map_entry (0, 0) (\<lambda>h. h\<lparr>resource := Some ''NEXUS''\<rparr>) hx"
    by (simp add: place_nexus_def split: option.splits)
  have m: "map (\<lambda>e. (fst e, coordinates (snd e))) hx1 = map (\<lambda>e. (fst e, coordinates (snd e))) hx"
    unfolding hx1 by (rule map_entry_cells) (simp add: coordinates_def)
  from m show l: "length hx1 = length hx" by (rule map_eq_imp_length_eq)
  from m have "map fst (map (\<lambda>e. (fst e, coordinates (snd e))) hx1) = map fst (map (\<lambda>e. (fst e, coordinates (snd e))) hx)"
    by simp
  then show "map fst hx1 = map fst hx" by (simp add: comp_def)
  assume k: "k < length hx"
  from m have "map (\<lambda>e. (fst e, coordinates (snd e))) hx1 ! k = map (\<lambda>e. (fst e, coordinates (snd e))) hx ! k"
    by simp
  with k l show "cell_of hx1 k = cell_of hx k" by (simp add: cell_of_def)
qed

lemma place_resources_keys: "map fst (place_resources spots num hx) = map fst hx"
proof -
  have "map fst (fold (\<lambda>i h1. mutate_hex h1 (spots ! i)
                    (\<lambda>h. h\<lparr>resource := Some (resource_types ! (i mod length resource_types))\<rparr>)) xs hx) = map fst hx" for xs
    by (induction xs arbitrary: hx) (simp_all add: map_fst_mutate_hex)
  then show ?thesis by (simp add: place_resources_def)
qed

lemma place_bases_spec:
  assumes "place_bases eh stride i ds hx = Inr (hx1, ps)"
  shows "length ps = length ds \<and> length hx1 = length hx \<and> map fst hx1 = map fst hx \<and>
         (\<forall>k. cell_of hx1 k = cell_of hx k) \<and>
         (\<forall>j<length ds. (i + j) * stride < length eh \<and> id_player (ps ! j) = id_details (ds ! j) \<and>
              base_hex (ps ! j) = cell_of hx (eh ! ((i + j) * stride)))"
  using assms
proof (induction ds arbitrary: i hx hx1 ps)
  case Nil
  then show ?case by simp
next
  case (Cons d ds)
  from Cons.prems have lt: "i * stride < length eh" by (simp split: if_splits)
  let ?hx = "mutate_hex hx (eh ! (i * stride)) (\<lambda>h. h\<lparr>is_base_for := Some (id_details d)\<rparr>)"
  let ?p = "\<lparr>id_player = id_details d, name = name_details d, color = color_details d,
              action_points = 0, base_hex = coordinates (snd (hx ! (eh ! (i * stride))))\<rparr>"
  from Cons.prems lt
  have "bind_err (place_bases eh stride (i + 1) ds ?hx) (\<lambda>(hx1', ps'). Inr (hx1', ?p # ps')) = Inr (hx1, ps)"
    by (simp add: Let_def)
  then obtain res where r: "place_bases eh stride (i + 1) ds ?hx = Inr res"
    and f: "(case res of (hx1', ps') \<Rightarrow> Inr (hx1', ?p # ps')) = (Inr (hx1, ps) :: error + _)"
    by (rule bind_errE)
  obtain hx2 ps2 where res: "res = (hx2, ps2)" by (cases res)
  from f res have ps: "ps = ?p # ps2" and hx1: "hx1 = hx2" by simp_all
  from r res have ih: "length ps2 = length ds \<and> length hx2 = length ?hx \<and> map fst hx2 = map fst ?hx \<and>
         (\<forall>k. cell_of hx2 k = cell_of ?hx k) \<and>
         (\<forall>j<length ds. (i + 1 + j) * stride < length eh \<and> id_player (ps2 ! j) = id_details (ds ! j) \<and>
              base_hex (ps2 ! j) = cell_of ?hx (eh ! ((i + 1 + j) * stride)))"
    by (intro Cons.IH[of "i + 1" ?hx hx2 ps2]) simp
  have cm: "cell_of ?hx k = cell_of hx k" for k
    by (rule cell_of_mutate_hex) (simp add: coordinates_def)
  have "\<forall>j<length (d # ds). (i + j) * stride < length eh \<and> id_player (ps ! j) = id_details ((d # ds) ! j) \<and>
              base_hex (ps ! j) = cell_of hx (eh ! ((i + j) * stride))"
  proof (intro allI impI)
    fix j assume j: "j < length (d # ds)"
    show "(i + j) * stride < length eh \<and> id_player (ps ! j) = id_details ((d # ds) ! j) \<and>
              base_hex (ps ! j) = cell_of hx (eh ! ((i + j) * stride))"
    proof (cases j)
      case 0
      with lt ps show ?thesis by (simp add: cell_of_def)
    next
      case (Suc j')
      with j have "j' < length ds" by simp
      with ih have "(i + 1 + j') * stride < length eh \<and> id_player (ps2 ! j') = id_details (ds ! j') \<and>
              base_hex (ps2 ! j') = cell_of ?hx (eh ! ((i + 1 + j') * stride))" by blast
      with Suc ps cm show ?thesis by simp
    qed
  qed
  with ih ps hx1 cm show ?case by (simp add: map_fst_mutate_hex)
qed

lemma place_bases_total:
  assumes "\<forall>j<length ds. (i + j) * stride < length eh"
  shows "\<exists>hx1 ps. place_bases eh stride i ds hx = Inr (hx1, ps)"
  using assms
proof (induction ds arbitrary: i hx)
  case Nil
  then show ?case by simp
next
  case (Cons d ds)
  from Cons.prems have lt: "i * stride < length eh" by auto
  let ?hx = "mutate_hex hx (eh ! (i * stride)) (\<lambda>h. h\<lparr>is_base_for := Some (id_details d)\<rparr>)"
  from Cons.prems have "\<forall>j<length ds. (i + 1 + j) * stride < length eh" by auto
  from Cons.IH[OF this, of ?hx] obtain hx2 ps2 where "place_bases eh stride (i + 1) ds ?hx = Inr (hx2, ps2)"
    by blast
  with lt show ?case by (simp add: Let_def bind_err_def)
qed

lemma stride_bound:
  assumes "j < n" and "0 < m"
  shows "j * (m div n) < (m::nat)"
proof (cases "n \<le> m")
  case True
  from assms have n: "0 < n" by simp
  with True have s: "0 < m div n" by (simp add: div_greater_zero_iff)
  from assms(1) have "Suc j * (m div n) \<le> n * (m div n)" by (intro mult_le_mono1) simp
  also have "\<dots> \<le> m" by simp
  finally have "j * (m div n) + m div n \<le> m" by simp
  with s show ?thesis by linarith
next
  case False
  then have "m div n = 0" by simp
  with assms(2) show ?thesis by simp
qed

text \<open>The coordinates of the edge cells, in the order of \<open>edge_hexes\<close>.\<close>

definition edge_cells :: "int \<Rightarrow> (HexCoord \<times> Hex) list \<Rightarrow> HexCoord list" where
  "edge_cells rad hx = map (cell_of hx) (edge_hexes rad hx)"

definition axial_distance :: "HexCoord \<Rightarrow> int" where
  "axial_distance c = max \<bar>fst c\<bar> (max \<bar>snd c\<bar> \<bar>- fst c - snd c\<bar>)"

lemma edge_hexes_in_range: "k \<in> set (edge_hexes rad hx) \<Longrightarrow> k < length hx"
  by (simp add: edge_hexes_def)

lemma edge_cells_distance: "c \<in> set (edge_cells rad hx) \<Longrightarrow> axial_distance c = rad"
  by (auto simp: edge_cells_def edge_hexes_def cell_of_def axial_distance_def ring_distance_def
        coordinates_def s_hex_def)

lemma edge_cells_radius_4:
  "edge_cells 4 (generate_grid 4) =
     [(-4, 0), (-4, 1), (-4, 2), (-4, 3), (-4, 4), (-3, -1), (-3, 4), (-2, -2), (-2, 4),
      (-1, -3), (-1, 4), (0, -4), (0, 4), (1, -4), (1, 3), (2, -4), (2, 2), (3, -4), (3, 1),
      (4, -4), (4, -3), (4, -2), (4, -1), (4, 0)]"
  by code_simp

lemma edge_cells_radius_4_props:
  "length (edge_cells 4 (generate_grid 4)) = 24" "distinct (edge_cells 4 (generate_grid 4))"
  "set (edge_cells 4 (generate_grid 4)) \<subseteq> set (map fst (generate_grid 4))"
    apply (simp add: edge_cells_radius_4)
   apply (simp add: edge_cells_radius_4)
  apply code_simp
  done

lemma nexus_in_grid: "\<exists>hx1. place_nexus (generate_grid 4) = Inr hx1"
proof -
  have "case map_of (generate_grid 4) (0, 0) of None \<Rightarrow> False | Some h \<Rightarrow> True" by code_simp
  then show ?thesis by (simp add: place_nexus_def split: option.splits)
qed


text \<open>
  Board setup on the grid of radius 4, for any list of players: it returns, keeps the
  cells of the grid, and gives player \<open>i\<close> the edge cell at index \<open>i * (24 div n)\<close>.
\<close>

lemma board_setup_bases:
  "\<exists>hx ps. place_special_hexes GRID_RADIUS (generate_grid GRID_RADIUS) ds sh = Inr (hx, ps) \<and>
     length ps = length ds \<and> map fst hx = map fst (generate_grid GRID_RADIUS) \<and>
     (\<forall>i<length ds. id_player (ps ! i) = id_details (ds ! i) \<and> i * (24 div length ds) < 24 \<and>
        base_hex (ps ! i) = edge_cells GRID_RADIUS (generate_grid GRID_RADIUS) ! (i * (24 div length ds)))"
proof -
  let ?G = "generate_grid 4"
  let ?eh = "edge_hexes 4 ?G"
  let ?E = "edge_cells 4 ?G"
  let ?n = "length ds"
  let ?s = "length ?eh div ?n"
  have len: "length ?eh = 24" using edge_cells_radius_4_props(1) by (simp add: edge_cells_def)
  have bound: "j * ?s < length ?eh" if "j < ?n" for j
    using that unfolding len by (rule stride_bound) simp
  obtain hx1 where nx: "place_nexus ?G = Inr hx1" using nexus_in_grid by blast
  note nxs = place_nexus_spec[OF nx]
  from bound have "\<forall>j<?n. (0 + j) * ?s < length ?eh" by simp
  from place_bases_total[OF this, of hx1] obtain hx2 ps where pb: "place_bases ?eh ?s 0 ds hx1 = Inr (hx2, ps)"
    by blast
  let ?spots = "sh (filter (\<lambda>k. resource (snd (hx2 ! k)) = None) (internal_hexes 4 ?G))"
  let ?hx = "place_resources ?spots (min (length ?spots) (max 9 (?n * 3))) hx2"
  have res: "place_special_hexes GRID_RADIUS (generate_grid GRID_RADIUS) ds sh = Inr (?hx, ps)"
    by (simp add: place_special_hexes_def GRID_RADIUS_def Let_def bind_err_def nx pb)
  from place_bases_spec[OF pb]
  have lps: "length ps = ?n" and keys2: "map fst hx2 = map fst hx1"
    and bases: "\<And>j. j < ?n \<Longrightarrow> id_player (ps ! j) = id_details (ds ! j) \<and>
              base_hex (ps ! j) = cell_of hx1 (?eh ! (j * ?s))"
    by simp_all
  have keys: "map fst ?hx = map fst (generate_grid GRID_RADIUS)"
    by (simp add: place_resources_keys keys2 nxs(2) GRID_RADIUS_def)
  have base: "base_hex (ps ! j) = edge_cells GRID_RADIUS (generate_grid GRID_RADIUS) ! (j * (24 div ?n))"
    if j: "j < ?n" for j
  proof -
    from bound[OF j] have "?eh ! (j * ?s) \<in> set ?eh" by simp
    then have "?eh ! (j * ?s) < length ?G" by (rule edge_hexes_in_range)
    then have "cell_of hx1 (?eh ! (j * ?s)) = cell_of ?G (?eh ! (j * ?s))" by (rule nxs(3))
    with bases[OF j] bound[OF j] show ?thesis by (simp add: edge_cells_def len GRID_RADIUS_def)
  qed
  have "\<forall>i<length ds. id_player (ps ! i) = id_details (ds ! i) \<and> i * (24 div length ds) < 24 \<and>
        base_hex (ps ! i) = edge_cells GRID_RADIUS (generate_grid GRID_RADIUS) ! (i * (24 div length ds))"
    using bases bound base by (simp add: len)
  with res lps keys show ?thesis by blast
qed

section \<open>Claims\<close>

subsection \<open>C1: connectivity of a cell with itself\<close>

text \<open>
  C1, as stated, fails: on a board without conduits \<open>_is_connected\<close> returns false for the
  Nexus cell and itself, because of the guard \<open>if not player_conduits: return False\<close>.
\<close>

theorem C1_counterexample: "\<not> is_connected empty_board alpha (0, 0) (0, 0)"
  by (simp add: is_connected_def empty_board_def player_conduits_def)

text \<open>
  C1, amended: for every player and every cell \<open>X\<close> (on the grid or not),
  \<open>_is_connected(P, X, X)\<close> is true exactly when the player owns at least one conduit
  on the board.
\<close>

theorem C1_is_connected_refl:
  "is_connected b p x x \<longleftrightarrow> player_conduits (conduits b) (id_player p) \<noteq> {}"
  by (simp add: is_connected_def)

subsection \<open>C2: a rejected action changes nothing but the message\<close>

text \<open>
  C2: whenever \<open>handle_player_action\<close> returns false, for whatever reason, the session it
  leaves is the session it found with at most the status message replaced: the conduits,
  every player's action points, the current player, the turn number, the game-over flag
  and the winner are unchanged.
\<close>

theorem C2_rejected_action_keeps_state:
  "handle_player_action g pid a = Inr (False, g') \<Longrightarrow> g' = g\<lparr>message := message g'\<rparr>"
  by (rule handle_player_action_fail)

text \<open>
  In a fresh session the second player tries to place a conduit out of turn, and the
  first player tries to place one between two cells that are not adjacent.
\<close>

theorem C2_witness:
  "case new_game demo_details id id of Inl e \<Rightarrow> False
   | Inr g \<Rightarrow>
       (case handle_player_action g ''b'' (place_action (0, 4) (0, 3)) of
          Inl e \<Rightarrow> False
        | Inr (b, g1) \<Rightarrow> \<not> b \<and> g1 = g\<lparr>message := message g1\<rparr>) \<and>
       (case handle_player_action g ''a'' (place_action (-4, 0) (0, 0)) of
          Inl e \<Rightarrow> False
        | Inr (b, g1) \<Rightarrow> \<not> b \<and> g1 = g\<lparr>message := message g1\<rparr>)"
proof -
  have e: "case new_game demo_details id id of Inl e \<Rightarrow> False
   | Inr g \<Rightarrow>
       (case handle_player_action g ''b'' (place_action (0, 4) (0, 3)) of
          Inl e \<Rightarrow> False | Inr (b, g1) \<Rightarrow> \<not> b) \<and>
       (case handle_player_action g ''a'' (place_action (-4, 0) (0, 0)) of
          Inl e \<Rightarrow> False | Inr (b, g1) \<Rightarrow> \<not> b)"
    by code_simp
  show ?thesis
  proof (cases "new_game demo_details id id")
    case (Inl e1)
    with e show ?thesis by simp
  next
    case (Inr g)
    show ?thesis
    proof (cases "handle_player_action g ''b'' (place_action (0, 4) (0, 3))")
      case (Inl e2)
      with e Inr show ?thesis by simp
    next
      case r1: (Inr res1)
      show ?thesis
      proof (cases "handle_player_action g ''a'' (place_action (-4, 0) (0, 0))")
        case (Inl e3)
        with e Inr show ?thesis by simp
      next
        case r2: (Inr res2)
        obtain b1 g1 where res1: "res1 = (b1, g1)" by (cases res1)
        obtain b2 g2 where res2: "res2 = (b2, g2)" by (cases res2)
        from e Inr r1 r2 res1 res2 have nb: "\<not> b1" "\<not> b2" by simp_all
        from r1 res1 nb have "g1 = g\<lparr>message := message g1\<rparr>"
          by (intro C2_rejected_action_keeps_state[of g "''b''" "place_action (0, 4) (0, 3)"]) simp
        moreover from r2 res2 nb have "g2 = g\<lparr>message := message g2\<rparr>"
          by (intro C2_rejected_action_keeps_state[of g "''a''" "place_action (-4, 0) (0, 0)"]) simp
        ultimately show ?thesis using Inr r1 r2 res1 res2 nb by simp
      qed
    qed
  qed
qed

subsection \<open>C6: a reinforced conduit cannot be sabotaged\<close>

text \<open>
  C6: in a session with a current player, for every actor and every edge whose conduit is
  reinforced, a sabotage action on that edge (the two cells in either order) returns
  false and leaves the whole session as it was but for the status message; the conduit
  is still there with its owner and its flag.
\<close>

theorem C6_reinforced_conduit_immune:
  assumes idx: "current_player_idx g < length (players g)"
    and edge: "map_of (conduits (board g)) (sorted_edge c1 c2) = Some conduit"
    and re: "reinforced conduit"
  shows "\<exists>m. handle_player_action g pid (sabotage_action c1 c2) = Inr (False, g\<lparr>message := m\<rparr>)"
proof -
  let ?a = "sabotage_action c1 c2"
  from idx have cp: "get_current_player g = Inr (players g ! current_player_idx g)"
    by (simp add: get_current_player_def)
  have ty: "action_handlers_get (action_get ?a ''type'') = Inr (Some SabotageConduit)"
    by (simp add: action_handlers_get_def action_get_def sabotage_action_def)
  have c: "coord_field ?a ''hex1'' = Some c1" "coord_field ?a ''hex2'' = Some c2"
    by (simp_all add: coord_field_def sabotage_action_def)
  show ?thesis
  proof (cases "id_player (players g ! current_player_idx g) \<noteq> pid \<or> game_over g")
    case True
    then have "handle_player_action g pid ?a = Inr (False, g\<lparr>message := ''Not your turn or game is over.''\<rparr>)"
      unfolding handle_player_action_def by (auto simp: cp bind_err_def)
    then show ?thesis by (rule exI)
  next
    case False
    let ?m = "if action_points (players g ! current_player_idx g) < COST_SABOTAGE_CONDUIT
              then ''Not enough AP to sabotage.''
              else if player_id conduit = id_player (players g ! current_player_idx g)
              then ''Cannot sabotage your own or non-existent conduits.''
              else ''Cannot sabotage a reinforced conduit.''"
    have "handle_sabotage_conduit g (current_player_idx g) ?a = Inr (False, g\<lparr>message := ?m\<rparr>)"
      by (simp add: sabotage_total[OF c] edge re Let_def)
    with False have "handle_player_action g pid ?a = Inr (False, g\<lparr>message := ?m\<rparr>)"
      unfolding handle_player_action_def by (simp add: cp ty bind_err_def)
    then show ?thesis by (rule exI)
  qed
qed

text \<open>
  The first player places a conduit off the base and reinforces it, the turn passes, and
  the second player, with four action points, tries to sabotage it.
\<close>

theorem C6_witness:
  "case demo_run [Action ''a'' (place_action (-4, 0) (-3, 0)),
                  Action ''a'' (reinforce_action (-4, 0) (-3, 0)), NextTurn] of
     Inl e \<Rightarrow> False
   | Inr g \<Rightarrow>
       id_player (players g ! current_player_idx g) = ''b'' \<and>
       map_of (conduits (board g)) ((-4, 0), (-3, 0)) = Some \<lparr>player_id = ''a'', reinforced = True\<rparr> \<and>
       (\<exists>m. handle_player_action g ''b'' (sabotage_action (-3, 0) (-4, 0)) = Inr (False, g\<lparr>message := m\<rparr>))"
proof -
  let ?cs = "[Action ''a'' (place_action (-4, 0) (-3, 0)),
              Action ''a'' (reinforce_action (-4, 0) (-3, 0)), NextTurn]"
  have e: "case demo_run ?cs of Inl e \<Rightarrow> False
    | Inr g \<Rightarrow> current_player_idx g < length (players g) \<and>
        id_player (players g ! current_player_idx g) = ''b'' \<and>
        (case map_of (conduits (board g)) ((-4, 0), (-3, 0)) of None \<Rightarrow> False
         | Some c \<Rightarrow> player_id c = ''a'' \<and> reinforced c)"
    by code_simp
  show ?thesis
  proof (cases "demo_run ?cs")
    case (Inl e1)
    with e show ?thesis by simp
  next
    case (Inr g)
    with e have idx: "current_player_idx g < length (players g)"
      and b: "id_player (players g ! current_player_idx g) = ''b''"
      and c: "map_of (conduits (board g)) ((-4, 0), (-3, 0)) = Some \<lparr>player_id = ''a'', reinforced = True\<rparr>"
      by (auto split: option.splits)
    have se: "sorted_edge (-3, 0) (-4, 0) = ((-4, 0), (-3, 0))"
      by (simp add: sorted_edge_def coord_lt_def)
    from c have c': "map_of (conduits (board g)) (sorted_edge (-3, 0) (-4, 0)) =
                       Some \<lparr>player_id = ''a'', reinforced = True\<rparr>"
      by (simp only: se)
    have "\<exists>m. handle_player_action g ''b'' (sabotage_action (-3, 0) (-4, 0)) = Inr (False, g\<lparr>message := m\<rparr>)"
      by (rule C6_reinforced_conduit_immune[OF idx c']) simp
    with Inr b c show ?thesis by simp
  qed
qed

subsection \<open>C9: payloads that raise\<close>


text \<open>
  Not every malformed payload raises. A handler reads the coordinates only after its
  check of the action points, and \<open>_handle_reinforce_conduit\<close> never unpacks them: on the
  empty board of a fresh session, a reinforcement whose \<open>hex1\<close> and \<open>hex2\<close> are the strings
  \<open>ab\<close> and \<open>cd\<close> is rejected with \<open>False\<close> (no such conduit), and so is a placement whose \<open>hex2\<close>
  has a single element (it is in no list of neighbours).
\<close>

lemma malformed_payload_rejected:
  "case new_game demo_details id id of Inl e \<Rightarrow> False
   | Inr g \<Rightarrow>
       (case handle_player_action g ''a'' [(''type'', PStr ''reinforce_conduit''),
               (''hex1'', PStr ''ab''), (''hex2'', PStr ''cd'')] of
          Inl e \<Rightarrow> False | Inr res \<Rightarrow> \<not> fst res) \<and>
       (case handle_player_action g ''a'' [(''type'', PStr ''place_conduit''),
               (''hex1'', PList [PInt 0, PInt 0]), (''hex2'', PList [PInt 0])] of
          Inl e \<Rightarrow> False | Inr res \<Rightarrow> \<not> fst res)"
  by code_simp



subsection \<open>C5: action points at the start of a turn\<close>

text \<open>
  C5: after \<open>start_turn\<close>, after \<open>next_turn\<close> on a game that is not over, and after the
  creation of a session, the current player's action points are exactly
  \<open>BASE_AP_PER_TURN = 4\<close> plus \<open>RESOURCE_BONUS_AP = 1\<close> times the number of resource cells
  connected to that player's base. The value is a function of the board and of the
  player's identity and base alone: what the player had before is overwritten.
\<close>

theorem C5_turn_start_action_points:
  assumes "start_turn g = Inr g' \<or> (\<not> game_over g \<and> next_turn g = Inr g') \<or> new_game ds sh1 sh2 = Inr g'"
  shows "action_points (players g' ! current_player_idx g') =
           4 + 1 * int (card (get_controlled_resources (board g') (players g' ! current_player_idx g')))"
proof -
  have "\<exists>g0. start_turn g0 = Inr g'"
    using assms
  proof (elim disjE conjE)
    assume "start_turn g = Inr g'" then show ?thesis by (rule exI)
  next
    assume "\<not> game_over g" "next_turn g = Inr g'"
    from next_turn_Inr(2)[OF this(2,1)] show ?thesis by (rule exI)
  next
    assume "new_game ds sh1 sh2 = Inr g'"
    then show ?thesis by (elim new_game_Inr) (rule exI)
  qed
  then obtain g0 where "start_turn g0 = Inr g'" by iprover
  from start_turn_ap[OF this] show ?thesis
    by (simp add: BASE_AP_PER_TURN_def RESOURCE_BONUS_AP_def)
qed

text \<open>
  The first player places one conduit and keeps three action points; after two turn
  changes it is that player's turn again, with exactly five points: the four of every
  turn plus one for the resource cell that the conduit now connects to the base. The
  three unspent points are not carried over.
\<close>

theorem C5_witness:
  "case demo_run [Action ''a'' (place_action (-4, 0) (-3, 0))] of
     Inl e \<Rightarrow> False
   | Inr g \<Rightarrow>
      (case next_turn g of
         Inl e \<Rightarrow> False
       | Inr g1 \<Rightarrow>
          (case next_turn g1 of
             Inl e \<Rightarrow> False
           | Inr g2 \<Rightarrow>
               action_points (players g ! 0) = 3 \<and> current_player_idx g2 = 0 \<and>
               action_points (players g2 ! 0) = 5 \<and>
               action_points (players g2 ! current_player_idx g2) =
                 4 + 1 * int (card (get_controlled_resources (board g2) (players g2 ! current_player_idx g2)))))"
proof -
  let ?cs = "[Action ''a'' (place_action (-4, 0) (-3, 0))]"
  have e: "case demo_run ?cs of
     Inl e \<Rightarrow> False
   | Inr g \<Rightarrow>
      (case next_turn g of
         Inl e \<Rightarrow> False
       | Inr g1 \<Rightarrow>
          (case next_turn g1 of
             Inl e \<Rightarrow> False
           | Inr g2 \<Rightarrow>
               action_points (players g ! 0) = 3 \<and> current_player_idx g2 = 0 \<and>
               action_points (players g2 ! 0) = 5 \<and> \<not> game_over g1))"
    by code_simp
  show ?thesis
  proof (cases "demo_run ?cs")
    case (Inl e1)
    with e show ?thesis by simp
  next
    case g: (Inr g)
    show ?thesis
    proof (cases "next_turn g")
      case (Inl e2)
      with e g show ?thesis by simp
    next
      case g1: (Inr g1)
      show ?thesis
      proof (cases "next_turn g1")
        case (Inl e3)
        with e g g1 show ?thesis by simp
      next
        case g2: (Inr g2)
        with e g g1 have ngo: "\<not> game_over g1" by simp
        have "action_points (players g2 ! current_player_idx g2) =
                 4 + 1 * int (card (get_controlled_resources (board g2) (players g2 ! current_player_idx g2)))"
          by (rule C5_turn_start_action_points[of g1 g2]) (simp add: ngo g2)
        with e g g1 g2 show ?thesis by simp
      qed
    qed
  qed
qed

subsection \<open>C4: the win condition\<close>

text \<open>
  C4: after a successful action of the current player \<open>P\<close> (the actor), the game is over
  with \<open>P\<close> as the winner exactly when \<open>P\<close>'s base is connected to the Nexus cell
  \<open>(0, 0)\<close> and \<open>P\<close> controls at least \<open>WIN_CONDITION_RESOURCES = 3\<close> resource cells, both
  evaluated by \<open>_is_connected\<close> on the board the action leaves; otherwise the game is
  not over and the winner field is what it was.
\<close>

theorem C4_win_iff_nexus_and_resources:
  assumes "handle_player_action g pid a = Inr (True, g')"
  shows "current_player_idx g' = current_player_idx g \<and>
         id_player (players g' ! current_player_idx g') = pid \<and>
         (if is_connected (board g') (players g' ! current_player_idx g')
                (base_hex (players g' ! current_player_idx g')) (0, 0) \<and>
             3 \<le> card (get_controlled_resources (board g') (players g' ! current_player_idx g'))
          then game_over g' \<and> winner g' = Some (current_player_idx g')
          else \<not> game_over g' \<and> winner g' = winner g)"
proof -
  from assms obtain h g1 where idx: "current_player_idx g < length (players g)"
    and pid: "id_player (players g ! current_player_idx g) = pid" and ngo: "\<not> game_over g"
    and rh: "run_handler h g (current_player_idx g) a = Inr (True, g1)"
    and g': "g' = win_update g1"
    by (rule handle_player_action_success)
  from rh obtain cost where fr: "action_frame g (current_player_idx g) cost g1"
    by (rule run_handler_success)
  from fr have i1: "current_player_idx g1 = current_player_idx g"
    and p1: "players g1 = spend (players g) (current_player_idx g) cost"
    and go1: "game_over g1 = game_over g" and w1: "winner g1 = winner g"
    by (simp_all add: action_frame_def)
  have id1: "id_player (players g1 ! current_player_idx g1) = pid"
    by (simp add: i1 p1 spend_nth[OF idx] pid)
  show ?thesis
  proof (cases "check_win_condition (board g1) (players g1 ! current_player_idx g1)")
    case True
    then have "g' = g1\<lparr>game_over := True, winner := Some (current_player_idx g1),
              message := ''Game Over! '' @ name (players g1 ! current_player_idx g1) @
                         '' has connected to the Nexus and wins!''\<rparr>"
      by (simp add: g' win_update_def)
    with True i1 id1 show ?thesis
      by (simp add: check_win_condition_def Let_def WIN_CONDITION_RESOURCES_def split: if_splits)
  next
    case False
    then have "g' = g1" by (simp add: g' win_update_def)
    with False i1 id1 go1 w1 ngo show ?thesis
      by (auto simp add: check_win_condition_def Let_def WIN_CONDITION_RESOURCES_def split: if_splits)
  qed
qed

text \<open>
  Two scenarios. The first conduit off the base succeeds and wins nothing. Four conduits
  in the first turn and a fifth in the player's next turn connect the base to three
  resource cells and to the Nexus: the fifth placement ends the game.
\<close>

theorem C4_witness:
  "(case new_game demo_details id id of Inl e \<Rightarrow> False
    | Inr g \<Rightarrow>
       (case handle_player_action g ''a'' (place_action (-4, 0) (-3, 0)) of
          Inl e \<Rightarrow> False
        | Inr (ok, g1) \<Rightarrow> ok \<and> \<not> game_over g1 \<and> winner g1 = None)) \<and>
   (case demo_run [Action ''a'' (place_action (-4, 0) (-3, 0)), Action ''a'' (place_action (-3, 0) (-3, 1)),
        Action ''a'' (place_action (-3, 0) (-2, 0)), Action ''a'' (place_action (-2, 0) (-1, 0)),
        NextTurn, NextTurn] of
      Inl e \<Rightarrow> False
    | Inr g \<Rightarrow>
       (case handle_player_action g ''a'' (place_action (-1, 0) (0, 0)) of
          Inl e \<Rightarrow> False
        | Inr (ok, g1) \<Rightarrow> ok \<and> game_over g1 \<and> winner g1 = Some (current_player_idx g) \<and>
            id_player (players g1 ! current_player_idx g) = ''a''))"
proof -
  let ?cs = "[Action ''a'' (place_action (-4, 0) (-3, 0)), Action ''a'' (place_action (-3, 0) (-3, 1)),
        Action ''a'' (place_action (-3, 0) (-2, 0)), Action ''a'' (place_action (-2, 0) (-1, 0)),
        NextTurn, NextTurn]"
  have e1: "case new_game demo_details id id of Inl e \<Rightarrow> False
   | Inr g \<Rightarrow> winner g = None \<and>
       (case handle_player_action g ''a'' (place_action (-4, 0) (-3, 0)) of
          Inl e \<Rightarrow> False
        | Inr (ok, g1) \<Rightarrow> ok \<and> \<not> is_connected (board g1) (players g1 ! current_player_idx g1)
                (base_hex (players g1 ! current_player_idx g1)) (0, 0))"
    by code_simp
  have e2: "case demo_run ?cs of
     Inl e \<Rightarrow> False
   | Inr g \<Rightarrow>
       (case handle_player_action g ''a'' (place_action (-1, 0) (0, 0)) of
          Inl e \<Rightarrow> False
        | Inr (ok, g1) \<Rightarrow> ok \<and> is_connected (board g1) (players g1 ! current_player_idx g1)
                (base_hex (players g1 ! current_player_idx g1)) (0, 0) \<and>
            card (get_controlled_resources (board g1) (players g1 ! current_player_idx g1)) = 3)"
    by code_simp
  have first: "case new_game demo_details id id of Inl e \<Rightarrow> False
    | Inr g \<Rightarrow>
       (case handle_player_action g ''a'' (place_action (-4, 0) (-3, 0)) of
          Inl e \<Rightarrow> False
        | Inr (ok, g1) \<Rightarrow> ok \<and> \<not> game_over g1 \<and> winner g1 = None)"
  proof (cases "new_game demo_details id id")
    case (Inl e)
    with e1 show ?thesis by simp
  next
    case g: (Inr g)
    show ?thesis
    proof (cases "handle_player_action g ''a'' (place_action (-4, 0) (-3, 0))")
      case (Inl e)
      with e1 g show ?thesis by simp
    next
      case r: (Inr res)
      obtain ok g1 where res: "res = (ok, g1)" by (cases res)
      from e1 g r res have ok: "ok" and w: "winner g = None"
        and nc: "\<not> is_connected (board g1) (players g1 ! current_player_idx g1)
                (base_hex (players g1 ! current_player_idx g1)) (0, 0)"
        by simp_all
      from r res ok have "handle_player_action g ''a'' (place_action (-4, 0) (-3, 0)) = Inr (True, g1)"
        by simp
      from C4_win_iff_nexus_and_resources[OF this] nc w
      have "\<not> game_over g1 \<and> winner g1 = None" by simp
      with g r res ok show ?thesis by simp
    qed
  qed
  have second: "case demo_run ?cs of
      Inl e \<Rightarrow> False
    | Inr g \<Rightarrow>
       (case handle_player_action g ''a'' (place_action (-1, 0) (0, 0)) of
          Inl e \<Rightarrow> False
        | Inr (ok, g1) \<Rightarrow> ok \<and> game_over g1 \<and> winner g1 = Some (current_player_idx g) \<and>
            id_player (players g1 ! current_player_idx g) = ''a'')"
  proof (cases "demo_run ?cs")
    case (Inl e)
    with e2 show ?thesis by simp
  next
    case g: (Inr g)
    show ?thesis
    proof (cases "handle_player_action g ''a'' (place_action (-1, 0) (0, 0))")
      case (Inl e)
      with e2 g show ?thesis by simp
    next
      case r: (Inr res)
      obtain ok g1 where res: "res = (ok, g1)" by (cases res)
      from e2 g r res have ok: "ok"
        and c: "is_connected (board g1) (players g1 ! current_player_idx g1)
                (base_hex (players g1 ! current_player_idx g1)) (0, 0)"
        and n: "card (get_controlled_resources (board g1) (players g1 ! current_player_idx g1)) = 3"
        by simp_all
      from r res ok have "handle_player_action g ''a'' (place_action (-1, 0) (0, 0)) = Inr (True, g1)"
        by simp
      note r4 = C4_win_iff_nexus_and_resources[OF this]
      from r4 have i: "current_player_idx g1 = current_player_idx g" by (rule conjunct1)
      from r4 have p: "id_player (players g1 ! current_player_idx g1) = ''a''" by blast
      from r4 c n have ow: "game_over g1 \<and> winner g1 = Some (current_player_idx g1)"
        by (auto split: if_splits)
      from ow have o: "game_over g1" and w: "winner g1 = Some (current_player_idx g1)"
        by blast+
      from p w have "id_player (players g1 ! current_player_idx g) = ''a''"
        and "winner g1 = Some (current_player_idx g)"
        by (simp_all add: i)
      with g r res ok o show ?thesis by simp
    qed
  qed
  from first second show ?thesis by (rule conjI)
qed

subsection \<open>C10: action points are never negative\<close>

text \<open>
  C10: in every session reachable from a freshly created game by calls of
  \<open>handle_player_action\<close> and \<open>next_turn\<close>, every player's action points are at least
  zero: a new player has zero, a handler subtracts a cost only after checking that the
  player has it, and a turn start assigns at least \<open>BASE_AP_PER_TURN = 4\<close>.
\<close>

theorem C10_action_points_never_negative: "reachable g \<Longrightarrow> \<forall>p \<in> set (players g). 0 \<le> action_points p"
  using reachable_ap_nonneg[of g] by (simp add: ap_nonneg_def list_all_iff)

text \<open>
  The first player places a conduit (three points left), reinforces it (one left), is
  refused a second reinforcement for lack of points, and the turn passes.
\<close>

theorem C10_witness:
  "case demo_run [Action ''a'' (place_action (-4, 0) (-3, 0)),
                  Action ''a'' (reinforce_action (-4, 0) (-3, 0)),
                  Action ''a'' (reinforce_action (-4, 0) (-3, 0)), NextTurn] of
     Inl e \<Rightarrow> False
   | Inr g \<Rightarrow> reachable g \<and> map action_points (players g) = [1, 4] \<and>
              list_all (\<lambda>p. 0 \<le> action_points p) (players g)"
proof -
  let ?cs = "[Action ''a'' (place_action (-4, 0) (-3, 0)),
              Action ''a'' (reinforce_action (-4, 0) (-3, 0)),
              Action ''a'' (reinforce_action (-4, 0) (-3, 0)), NextTurn]"
  have e: "case demo_run ?cs of Inl e \<Rightarrow> False
    | Inr g \<Rightarrow> map action_points (players g) = [1, 4]"
    by code_simp
  show ?thesis
  proof (cases "demo_run ?cs")
    case (Inl e1)
    with e show ?thesis by simp
  next
    case (Inr g)
    then have r: "reachable g" by (rule demo_run_reachable)
    from C10_action_points_never_negative[OF r]
    have "list_all (\<lambda>p. 0 \<le> action_points p) (players g)" by (simp add: list_all_iff)
    with e Inr r show ?thesis by simp
  qed
qed

subsection \<open>C3: conduits and the cells of the grid\<close>

text \<open>
  C3 fails on the code. In a fresh session the first player, whose base is the edge cell
  \<open>(-4, 0)\<close>, places a conduit with \<open>hex1 = (-5, 0)\<close> and \<open>hex2 = (-4, 0)\<close>:
  \<open>get_neighbors((-5, 0))\<close> lists \<open>(-4, 0)\<close>, the edge touches the base, and nothing
  checks that \<open>hex1\<close> is a cell. The action succeeds, and the conduit map of the session
  reached holds an edge to \<open>(-5, 0)\<close>, which is not on the grid.
\<close>

theorem C3_conduit_to_missing_cell:
  "case demo_run [Action ''a'' (place_action (-5, 0) (-4, 0))] of
     Inl e \<Rightarrow> False
   | Inr g \<Rightarrow> reachable g \<and> action_points (players g ! 0) = 3 \<and>
              map fst (conduits (board g)) = [((-5, 0), (-4, 0))] \<and>
              map_of (hexes (board g)) (-5, 0) = None"
proof -
  let ?cs = "[Action ''a'' (place_action (-5, 0) (-4, 0))]"
  have e: "case demo_run ?cs of
     Inl e \<Rightarrow> False
   | Inr g \<Rightarrow> action_points (players g ! 0) = 3 \<and>
              map fst (conduits (board g)) = [((-5, 0), (-4, 0))] \<and>
              (case map_of (hexes (board g)) (-5, 0) of None \<Rightarrow> True | Some h \<Rightarrow> False)"
    by code_simp
  show ?thesis
  proof (cases "demo_run ?cs")
    case (Inl e1)
    with e show ?thesis by simp
  next
    case (Inr g)
    then have "reachable g" by (rule demo_run_reachable)
    with e Inr show ?thesis by (simp split: option.splits)
  qed
qed

subsection \<open>C8: player bases\<close>

text \<open>
  C8, as stated for every list of players, fails: with 25 players the stride
  \<open>24 // 25\<close> is 0, board setup returns normally, and every player gets the first edge
  cell \<open>(-4, 0)\<close> as base.
\<close>

theorem C8_counterexample:
  "\<exists>hx ps. place_special_hexes GRID_RADIUS (generate_grid GRID_RADIUS) crowd id = Inr (hx, ps) \<and>
      length ps = 25 \<and> base_hex (ps ! 0) = (-4, 0) \<and> base_hex (ps ! 1) = (-4, 0) \<and>
      \<not> distinct (map base_hex ps)"
proof -
  have n: "length crowd = 25" by (simp add: crowd_def)
  obtain hx ps where res: "place_special_hexes GRID_RADIUS (generate_grid GRID_RADIUS) crowd id = Inr (hx, ps)"
    and lps: "length ps = length crowd"
    and al: "\<forall>i<length crowd. id_player (ps ! i) = id_details (crowd ! i) \<and> i * (24 div length crowd) < 24 \<and>
        base_hex (ps ! i) = edge_cells GRID_RADIUS (generate_grid GRID_RADIUS) ! (i * (24 div length crowd))"
    using board_setup_bases[of crowd id] by blast
  from al have base: "\<And>i. i < length crowd \<Longrightarrow>
        base_hex (ps ! i) = edge_cells GRID_RADIUS (generate_grid GRID_RADIUS) ! (i * (24 div length crowd))"
    by blast
  from base[of 0] base[of 1] have b: "base_hex (ps ! 0) = (-4, 0)" "base_hex (ps ! 1) = (-4, 0)"
    by (simp_all add: n GRID_RADIUS_def edge_cells_radius_4)
  have "\<not> distinct (map base_hex ps)"
  proof
    assume d: "distinct (map base_hex ps)"
    have l0: "(0::nat) < length (map base_hex ps)" and l1: "(1::nat) < length (map base_hex ps)"
      by (simp_all add: lps n)
    from nth_eq_iff_index_eq[OF d l0 l1] have "map base_hex ps ! 0 \<noteq> map base_hex ps ! 1"
      by simp
    moreover from l0 l1 have "map base_hex ps ! 0 = base_hex (ps ! 0)" "map base_hex ps ! 1 = base_hex (ps ! 1)"
      by (simp_all only: length_map nth_map)
    ultimately show False using b by simp
  qed
  with res lps n b show ?thesis by (intro exI[of _ hx] exI[of _ ps]) simp
qed

text \<open>
  C8, amended: for every list of 1 to 24 players (24 is the number of edge cells of the
  grid of radius 4) and every outcome of the resource shuffle, board setup returns,
  keeps the cells of the grid, and gives each player exactly one base: player \<open>i\<close> gets
  the edge cell at index \<open>i * floor(edgeCellCount / playerCount)\<close> of the edge-cell list,
  which is a cell of the grid at axial distance \<open>GRID_RADIUS\<close> from the centre, and the
  bases are pairwise distinct.
\<close>

theorem C8_bases_on_edge_distinct:
  assumes n1: "1 \<le> length ds" and n24: "length ds \<le> 24"
  shows "\<exists>hx ps. place_special_hexes GRID_RADIUS (generate_grid GRID_RADIUS) ds sh = Inr (hx, ps) \<and>
     length ps = length ds \<and> map fst hx = map fst (generate_grid GRID_RADIUS) \<and>
     distinct (map base_hex ps) \<and>
     (\<forall>i<length ds. id_player (ps ! i) = id_details (ds ! i) \<and>
         base_hex (ps ! i) = edge_cells GRID_RADIUS (generate_grid GRID_RADIUS) !
             (i * (length (edge_cells GRID_RADIUS (generate_grid GRID_RADIUS)) div length ds)) \<and>
         axial_distance (base_hex (ps ! i)) = GRID_RADIUS \<and>
         base_hex (ps ! i) \<in> set (map fst hx))"
proof -
  let ?E = "edge_cells GRID_RADIUS (generate_grid GRID_RADIUS)"
  let ?n = "length ds"
  let ?s = "24 div ?n"
  have lenE: "length ?E = 24" and dE: "distinct ?E" and subE: "set ?E \<subseteq> set (map fst (generate_grid GRID_RADIUS))"
    using edge_cells_radius_4_props by (simp_all add: GRID_RADIUS_def)
  from n1 have ne: "ds \<noteq> []" by auto
  from ne n24 have s0: "0 < ?s" by (simp add: div_greater_zero_iff)
  obtain hx ps where res: "place_special_hexes GRID_RADIUS (generate_grid GRID_RADIUS) ds sh = Inr (hx, ps)"
    and lps: "length ps = ?n" and keys: "map fst hx = map fst (generate_grid GRID_RADIUS)"
    and al: "\<forall>i<?n. id_player (ps ! i) = id_details (ds ! i) \<and> i * ?s < 24 \<and>
                base_hex (ps ! i) = ?E ! (i * ?s)"
    using board_setup_bases[of ds sh] by blast
  from al have ids: "\<And>i. i < ?n \<Longrightarrow> id_player (ps ! i) = id_details (ds ! i)"
    and bound: "\<And>i. i < ?n \<Longrightarrow> i * ?s < 24"
    and base: "\<And>i. i < ?n \<Longrightarrow> base_hex (ps ! i) = ?E ! (i * ?s)"
    by blast+
  have inE: "base_hex (ps ! j) \<in> set ?E" if j: "j < ?n" for j
    using base[OF j] bound[OF j] lenE by simp
  have dist: "distinct (map base_hex ps)"
  proof (unfold distinct_conv_nth, intro allI impI)
    fix i j assume i: "i < length (map base_hex ps)" and j: "j < length (map base_hex ps)" and ne: "i \<noteq> j"
    from i j lps have i': "i < ?n" and j': "j < ?n" by simp_all
    show "map base_hex ps ! i \<noteq> map base_hex ps ! j"
    proof
      assume "map base_hex ps ! i = map base_hex ps ! j"
      with i j have "base_hex (ps ! i) = base_hex (ps ! j)" by simp
      with base[OF i'] base[OF j'] have "?E ! (i * ?s) = ?E ! (j * ?s)" by simp
      moreover from bound[OF i'] bound[OF j'] lenE
      have "i * ?s < length ?E" "j * ?s < length ?E" by simp_all
      ultimately have "i * ?s = j * ?s"
        using dE by (simp add: nth_eq_iff_index_eq)
      with s0 have "i = j" by simp
      with ne show False by contradiction
    qed
  qed
  have all: "\<forall>i<?n. id_player (ps ! i) = id_details (ds ! i) \<and>
         base_hex (ps ! i) = ?E ! (i * (length ?E div ?n)) \<and>
         axial_distance (base_hex (ps ! i)) = GRID_RADIUS \<and>
         base_hex (ps ! i) \<in> set (map fst hx)"
  proof (intro allI impI)
    fix i assume i: "i < ?n"
    from inE[OF i] have "axial_distance (base_hex (ps ! i)) = GRID_RADIUS" by (rule edge_cells_distance)
    moreover from inE[OF i] subE have "base_hex (ps ! i) \<in> set (map fst hx)"
      unfolding keys by blast
    moreover from base[OF i] have "base_hex (ps ! i) = ?E ! (i * (length ?E div ?n))"
      by (simp add: lenE)
    ultimately show "id_player (ps ! i) = id_details (ds ! i) \<and>
         base_hex (ps ! i) = ?E ! (i * (length ?E div ?n)) \<and>
         axial_distance (base_hex (ps ! i)) = GRID_RADIUS \<and>
         base_hex (ps ! i) \<in> set (map fst hx)"
      using ids[OF i] by simp
  qed
  from res lps keys dist all show ?thesis by blast
qed

text \<open>The two players of the scenarios get the bases \<open>(-4, 0)\<close> and \<open>(0, 4)\<close>.\<close>

theorem C8_witness:
  "\<exists>hx ps. place_special_hexes GRID_RADIUS (generate_grid GRID_RADIUS) demo_details id = Inr (hx, ps) \<and>
      map id_player ps = [''a'', ''b''] \<and> map base_hex ps = [(-4, 0), (0, 4)] \<and>
      distinct (map base_hex ps) \<and> list_all (\<lambda>p. axial_distance (base_hex p) = 4) ps"
proof -
  have n: "1 \<le> length demo_details" "length demo_details \<le> 24" by (simp_all add: demo_details_def)
  have l2: "length demo_details = 2" by (simp add: demo_details_def)
  have ix: "1 * (length (edge_cells GRID_RADIUS (generate_grid GRID_RADIUS)) div length demo_details) = 12"
    unfolding l2 by (simp add: GRID_RADIUS_def edge_cells_radius_4_props(1))
  have e0: "edge_cells 4 (generate_grid 4) ! 0 = (-4, 0)"
    and e12: "edge_cells 4 (generate_grid 4) ! 12 = (0, 4)"
    by (simp_all add: edge_cells_radius_4)
  from C8_bases_on_edge_distinct[OF n, of id] obtain hx ps
    where r: "place_special_hexes GRID_RADIUS (generate_grid GRID_RADIUS) demo_details id = Inr (hx, ps)"
      and l: "length ps = length demo_details" and d: "distinct (map base_hex ps)"
      and a: "\<forall>i<length demo_details. id_player (ps ! i) = id_details (demo_details ! i) \<and>
         base_hex (ps ! i) = edge_cells GRID_RADIUS (generate_grid GRID_RADIUS) !
             (i * (length (edge_cells GRID_RADIUS (generate_grid GRID_RADIUS)) div length demo_details)) \<and>
         axial_distance (base_hex (ps ! i)) = GRID_RADIUS \<and>
         base_hex (ps ! i) \<in> set (map fst hx)"
    by blast
  from l obtain p0 p1 where ps: "ps = [p0, p1]"
    by (cases ps; cases "tl ps"; auto simp: demo_details_def)
  have p0: "0 < length demo_details" and p1: "1 < length demo_details" by (simp_all add: l2)
  note a0 = a[rule_format, OF p0] and a1 = a[rule_format, OF p1]
  from a0 ps have "id_player p0 = ''a''" "base_hex p0 = (-4, 0)" "axial_distance (base_hex p0) = 4"
    by (auto simp: e0 demo_details_def GRID_RADIUS_def axial_distance_def)
  moreover from a1 ps have "id_player p1 = ''b''" "base_hex p1 = (0, 4)" "axial_distance (base_hex p1) = 4"
    unfolding ix by (auto simp: e12 demo_details_def GRID_RADIUS_def axial_distance_def)
  ultimately show ?thesis using r d ps
    by (intro exI[of _ hx] exI[of _ ps]) simp
qed

subsection \<open>C7: connectivity is monotone in the owner's conduits\<close>

text \<open>
  C7: for every board, player \<open>P\<close> and cells \<open>X\<close>, \<open>Y\<close>: if \<open>_is_connected(P, X, Y)\<close>
  holds, it still holds after \<open>conduits[e] = c\<close> for any edge \<open>e\<close> and any conduit \<open>c\<close>
  owned by \<open>P\<close>; and if it does not hold, it still does not hold after
  \<open>del conduits[e]\<close> for any edge \<open>e\<close>. So adding a conduit never shrinks, and removing
  one never grows, the set of cells connected to a start cell.
\<close>

theorem C7_connectivity_monotone:
  "(is_connected b p x y \<and> player_id c = id_player p \<longrightarrow>
      is_connected (b\<lparr>conduits := AList.update e c (conduits b)\<rparr>) p x y) \<and>
   (\<not> is_connected b p x y \<longrightarrow>
      \<not> is_connected (b\<lparr>conduits := AList.delete e (conduits b)\<rparr>) p x y)"
proof (intro conjI impI)
  assume a: "is_connected b p x y \<and> player_id c = id_player p"
  let ?pc = "player_conduits (conduits b) (id_player p)"
  from a have c: "player_id c = id_player p" and r: "(x, y) \<in> (conduit_steps (hexes b) ?pc)\<^sup>*"
    by (simp_all add: is_connected_iff)
  have "conduit_steps (hexes b) ?pc \<subseteq> conduit_steps (hexes b) (insert e ?pc)"
    by (rule conduit_steps_mono) blast
  then have "(conduit_steps (hexes b) ?pc)\<^sup>* \<subseteq> (conduit_steps (hexes b) (insert e ?pc))\<^sup>*"
    by (rule rtrancl_mono)
  with r have "(x, y) \<in> (conduit_steps (hexes b) (insert e ?pc))\<^sup>*" by blast
  then show "is_connected (b\<lparr>conduits := AList.update e c (conduits b)\<rparr>) p x y"
    by (simp add: is_connected_iff player_conduits_update[OF c])
next
  assume n: "\<not> is_connected b p x y"
  let ?pc = "player_conduits (conduits b) (id_player p)"
  show "\<not> is_connected (b\<lparr>conduits := AList.delete e (conduits b)\<rparr>) p x y"
  proof
    assume "is_connected (b\<lparr>conduits := AList.delete e (conduits b)\<rparr>) p x y"
    then have ne: "?pc - {e} \<noteq> {}" and r: "(x, y) \<in> (conduit_steps (hexes b) (?pc - {e}))\<^sup>*"
      by (simp_all add: is_connected_iff player_conduits_delete)
    have "conduit_steps (hexes b) (?pc - {e}) \<subseteq> conduit_steps (hexes b) ?pc"
      by (rule conduit_steps_mono) blast
    then have "(conduit_steps (hexes b) (?pc - {e}))\<^sup>* \<subseteq> (conduit_steps (hexes b) ?pc)\<^sup>*"
      by (rule rtrancl_mono)
    with r have "(x, y) \<in> (conduit_steps (hexes b) ?pc)\<^sup>*" by blast
    moreover from ne have "?pc \<noteq> {}" by blast
    ultimately have "is_connected b p x y" by (simp add: is_connected_iff)
    with n show False by contradiction
  qed
qed

text \<open>
  A board with two separate conduits of player \<open>a\<close>: the base stays connected to
  \<open>(-3, 0)\<close> when a conduit is added, and stays unconnected to \<open>(-1, 0)\<close> when one is
  removed.
\<close>

theorem C7_witness:
  "is_connected demo_board alpha (-4, 0) (-3, 0) \<and>
   is_connected (demo_board\<lparr>conduits := AList.update ((-3, 0), (-2, 0))
        \<lparr>player_id = ''a'', reinforced = False\<rparr> (conduits demo_board)\<rparr>) alpha (-4, 0) (-3, 0) \<and>
   \<not> is_connected demo_board alpha (-4, 0) (-1, 0) \<and>
   \<not> is_connected (demo_board\<lparr>conduits := AList.delete ((-2, 0), (-1, 0)) (conduits demo_board)\<rparr>)
        alpha (-4, 0) (-1, 0)"
proof -
  have e: "is_connected demo_board alpha (-4, 0) (-3, 0) \<and> \<not> is_connected demo_board alpha (-4, 0) (-1, 0)"
    by code_simp
  have o: "player_id \<lparr>player_id = ''a'', reinforced = False\<rparr> = id_player alpha"
    by (simp add: alpha_def)
  from C7_connectivity_monotone[of demo_board alpha "(-4, 0)" "(-3, 0)" "\<lparr>player_id = ''a'', reinforced = False\<rparr>" "((-3, 0), (-2, 0))"] e o
  have "is_connected (demo_board\<lparr>conduits := AList.update ((-3, 0), (-2, 0))
        \<lparr>player_id = ''a'', reinforced = False\<rparr> (conduits demo_board)\<rparr>) alpha (-4, 0) (-3, 0)"
    by blast
  moreover
  from C7_connectivity_monotone[of demo_board alpha "(-4, 0)" "(-1, 0)" _ "((-2, 0), (-1, 0))"] e
  have "\<not> is_connected (demo_board\<lparr>conduits := AList.delete ((-2, 0), (-1, 0)) (conduits demo_board)\<rparr>)
        alpha (-4, 0) (-1, 0)"
    by blast
  ultimately show ?thesis using e by blast
qed

end
